theory Spec2Isabelle
  imports Complex_Main "HOL-Library.Sublist"
begin

section \<open>The ledger of the CargoOps dashboard (src/src/App.jsx)\<close>

text \<open>
  The application keeps one JSON document in the browser's local storage. The embedding
  keeps the collections and fields that the inventory, sign-in and export code reads or
  writes; the remaining fields of a record (marks, seals, drivers, dates of inspection,
  the trips and the vehicles) are payload which that code copies and never inspects.

  A JavaScript number is the \<^typ>\<open>real\<close> that the finite double denotes; \<open>NaN\<close> and the
  infinities are outside the model, and the rounding of sums and differences is treated in
  the subsection on the arithmetic of doubles. A date is stored by the program as an ISO
  string written by \<open>toISOString()\<close>; the model keeps the millisecond value that
  \<open>new Date(s)\<close> gives for it. \<open>Number(v)\<close> is applied by the program to a form value
  before it is added; the record field of the model holds the number that results.
\<close>

datatype status = Bonded | FAK | OnSite | InTransit | Dispatched

record receipt =
  r_id :: string
  r_cargo_id :: string
  date_in :: int
  indent_number :: string
  r_quantity :: real
  r_weight_kg :: real

record dispatch =
  d_id :: string
  d_cargo_id :: string
  container_no :: string
  date_dispatched :: int
  qty_packed :: real
  total_weight_kg :: real

record snapshot =
  i_id :: string
  cargo_id :: string
  status :: status
  quantity :: real
  weight_kg :: real
  last_movement :: int

record user =
  u_id :: string
  email :: string
  role :: string
  u_name :: string
  tempPassword :: "string option"

record ledger =
  warehouse_receipts :: "receipt list"
  dispatches :: "dispatch list"
  inventory_snapshot :: "snapshot list"
  users :: "user list"
  passwords :: "string \<rightharpoonup> string"

definition empty_ledger :: ledger where
  "empty_ledger =
     \<lparr>warehouse_receipts = [], dispatches = [], inventory_snapshot = [], users = [],
      passwords = Map.empty\<rparr>"

subsection \<open>Finding an object in an array and mutating it in place\<close>

text \<open>
  \<open>arr.find(p)\<close> returns the first element that satisfies \<open>p\<close> (\<^const>\<open>List.find\<close>); the
  program then assigns to the fields of the object it got, which changes that element of
  the array and no other.
\<close>

fun update_first :: "('a \<Rightarrow> bool) \<Rightarrow> ('a \<Rightarrow> 'a) \<Rightarrow> 'a list \<Rightarrow> 'a list" where
  "update_first p f [] = []"
| "update_first p f (x # xs) = (if p x then f x # xs else x # update_first p f xs)"

subsection \<open>Receipts and dispatches (ReceiptPage.save, DispatchPage.save)\<close>

text \<open>
  \<open>ReceiptPage.save\<close>: the new receipt is put in front of the receipts; the snapshot of its
  cargo id is looked up, created at the end of the inventory with zero quantity and weight
  when there is none (\<open>new_id\<close> is the value of \<open>uid("inv")\<close>), and then incremented, set to
  "On Site" and stamped with the receipt's date.
\<close>

definition receive_into :: "receipt \<Rightarrow> snapshot \<Rightarrow> snapshot" where
  "receive_into newRec snap =
     snap\<lparr>quantity := quantity snap + r_quantity newRec,
         weight_kg := weight_kg snap + r_weight_kg newRec,
         status := OnSite,
         last_movement := date_in newRec\<rparr>"

definition ReceiptPage_save :: "string \<Rightarrow> ledger \<Rightarrow> receipt \<Rightarrow> ledger" where
  "ReceiptPage_save new_id db newRec =
     (let hit = (\<lambda>i. cargo_id i = r_cargo_id newRec);
          inventory =
            (case List.find hit (inventory_snapshot db) of
               None \<Rightarrow>
                 inventory_snapshot db @
                   [receive_into newRec
                      \<lparr>i_id = new_id, cargo_id = r_cargo_id newRec, status = OnSite,
                       quantity = 0, weight_kg = 0, last_movement = date_in newRec\<rparr>]
             | Some _ \<Rightarrow> update_first hit (receive_into newRec) (inventory_snapshot db))
      in db\<lparr>warehouse_receipts := newRec # warehouse_receipts db,
             inventory_snapshot := inventory\<rparr>)"

text \<open>
  \<open>DispatchPage.save\<close>: the new dispatch is put in front of the dispatches; when the cargo id
  has a snapshot, quantity and weight are reduced with \<open>Math.max(0, _)\<close>, the status
  becomes "Dispatched" when the quantity is \<open>0\<close>, and the date is stamped. Without a
  snapshot the inventory is not touched.
\<close>

definition dispatch_from :: "dispatch \<Rightarrow> snapshot \<Rightarrow> snapshot" where
  "dispatch_from newD snap =
     (let q = max 0 (quantity snap - qty_packed newD);
          w = max 0 (weight_kg snap - total_weight_kg newD)
      in snap\<lparr>quantity := q, weight_kg := w,
             status := (if q = 0 then Dispatched else status snap),
             last_movement := date_dispatched newD\<rparr>)"

definition DispatchPage_save :: "ledger \<Rightarrow> dispatch \<Rightarrow> ledger" where
  "DispatchPage_save db newD =
     (let hit = (\<lambda>i. cargo_id i = d_cargo_id newD);
          inventory =
            (case List.find hit (inventory_snapshot db) of
               None \<Rightarrow> inventory_snapshot db
             | Some _ \<Rightarrow> update_first hit (dispatch_from newD) (inventory_snapshot db))
      in db\<lparr>dispatches := newD # dispatches db, inventory_snapshot := inventory\<rparr>)"

text \<open>The snapshot that the program finds for a cargo id.\<close>

definition snapshot_of :: "ledger \<Rightarrow> string \<Rightarrow> snapshot option" where
  "snapshot_of db c = List.find (\<lambda>i. cargo_id i = c) (inventory_snapshot db)"

subsection \<open>Sequences of receipts and dispatches\<close>

text \<open>
  A sequence of saves, as a user performs them on the two pages: each receipt comes with
  the identifier that \<open>uid("inv")\<close> would draw if a snapshot had to be created.
\<close>

datatype movement_op = Receive string receipt | Ship dispatch

fun apply_op :: "ledger \<Rightarrow> movement_op \<Rightarrow> ledger" where
  "apply_op db (Receive new_id r) = ReceiptPage_save new_id db r"
| "apply_op db (Ship d) = DispatchPage_save db d"

definition apply_ops :: "ledger \<Rightarrow> movement_op list \<Rightarrow> ledger" where
  "apply_ops db ops = foldl apply_op db ops"

fun op_cargo_id :: "movement_op \<Rightarrow> string" where
  "op_cargo_id (Receive _ r) = r_cargo_id r"
| "op_cargo_id (Ship d) = d_cargo_id d"

fun is_receipt :: "movement_op \<Rightarrow> bool" where
  "is_receipt (Receive _ _) = True"
| "is_receipt (Ship _) = False"

fun qty_in :: "movement_op \<Rightarrow> real" where
  "qty_in (Receive _ r) = r_quantity r"
| "qty_in (Ship _) = 0"

fun qty_out :: "movement_op \<Rightarrow> real" where
  "qty_out (Receive _ _) = 0"
| "qty_out (Ship d) = qty_packed d"

fun weight_in :: "movement_op \<Rightarrow> real" where
  "weight_in (Receive _ r) = r_weight_kg r"
| "weight_in (Ship _) = 0"

fun weight_out :: "movement_op \<Rightarrow> real" where
  "weight_out (Receive _ _) = 0"
| "weight_out (Ship d) = total_weight_kg d"

definition total :: "(movement_op \<Rightarrow> real) \<Rightarrow> movement_op list \<Rightarrow> real" where
  "total f ops = sum_list (map f ops)"

subsection \<open>The two saves over the arithmetic of doubles\<close>

text \<open>
  \<open>inv.quantity += n\<close> and \<open>inv.quantity - n\<close> are the addition and the subtraction of
  IEEE doubles, which round: \<open>0.1 + 0.2\<close> is not \<open>0.3\<close>. A finite double is the real
  number it denotes, and \<open>Math.max\<close> and \<open>===\<close> are exact on these. The definitions above
  take the sum and the difference as the exact ones; that is enough where only the order of
  two numbers decides (the sign of a difference of two doubles is the sign of the exact
  difference, and it is zero only for equal numbers). Where the value of a sum is stated,
  the same two functions are taken with the addition \<open>add\<close> and the subtraction \<open>sub\<close> of
  the platform as parameters; nothing is assumed of them unless a statement says so.
  With exact arithmetic they are the definitions above (lemma \<open>exact_saves\<close>).
\<close>

definition receive_into_fp :: "(real \<Rightarrow> real \<Rightarrow> real) \<Rightarrow> receipt \<Rightarrow> snapshot \<Rightarrow> snapshot" where
  "receive_into_fp add newRec snap =
     snap\<lparr>quantity := add (quantity snap) (r_quantity newRec),
         weight_kg := add (weight_kg snap) (r_weight_kg newRec),
         status := OnSite,
         last_movement := date_in newRec\<rparr>"

definition ReceiptPage_save_fp ::
  "(real \<Rightarrow> real \<Rightarrow> real) \<Rightarrow> string \<Rightarrow> ledger \<Rightarrow> receipt \<Rightarrow> ledger" where
  "ReceiptPage_save_fp add new_id db newRec =
     (let hit = (\<lambda>i. cargo_id i = r_cargo_id newRec);
          inventory =
            (case List.find hit (inventory_snapshot db) of
               None \<Rightarrow>
                 inventory_snapshot db @
                   [receive_into_fp add newRec
                      \<lparr>i_id = new_id, cargo_id = r_cargo_id newRec, status = OnSite,
                       quantity = 0, weight_kg = 0, last_movement = date_in newRec\<rparr>]
             | Some _ \<Rightarrow>
                 update_first hit (receive_into_fp add newRec) (inventory_snapshot db))
      in db\<lparr>warehouse_receipts := newRec # warehouse_receipts db,
             inventory_snapshot := inventory\<rparr>)"

definition dispatch_from_fp :: "(real \<Rightarrow> real \<Rightarrow> real) \<Rightarrow> dispatch \<Rightarrow> snapshot \<Rightarrow> snapshot" where
  "dispatch_from_fp sub newD snap =
     (let q = max 0 (sub (quantity snap) (qty_packed newD));
          w = max 0 (sub (weight_kg snap) (total_weight_kg newD))
      in snap\<lparr>quantity := q, weight_kg := w,
             status := (if q = 0 then Dispatched else status snap),
             last_movement := date_dispatched newD\<rparr>)"

definition DispatchPage_save_fp ::
  "(real \<Rightarrow> real \<Rightarrow> real) \<Rightarrow> ledger \<Rightarrow> dispatch \<Rightarrow> ledger" where
  "DispatchPage_save_fp sub db newD =
     (let hit = (\<lambda>i. cargo_id i = d_cargo_id newD);
          inventory =
            (case List.find hit (inventory_snapshot db) of
               None \<Rightarrow> inventory_snapshot db
             | Some _ \<Rightarrow> update_first hit (dispatch_from_fp sub newD) (inventory_snapshot db))
      in db\<lparr>dispatches := newD # dispatches db, inventory_snapshot := inventory\<rparr>)"

fun apply_op_fp ::
  "(real \<Rightarrow> real \<Rightarrow> real) \<Rightarrow> (real \<Rightarrow> real \<Rightarrow> real) \<Rightarrow> ledger \<Rightarrow> movement_op \<Rightarrow> ledger" where
  "apply_op_fp add sub db (Receive new_id r) = ReceiptPage_save_fp add new_id db r"
| "apply_op_fp add sub db (Ship d) = DispatchPage_save_fp sub db d"

definition apply_ops_fp ::
  "(real \<Rightarrow> real \<Rightarrow> real) \<Rightarrow> (real \<Rightarrow> real \<Rightarrow> real) \<Rightarrow> ledger \<Rightarrow> movement_op list
     \<Rightarrow> ledger" where
  "apply_ops_fp add sub db ops = foldl (apply_op_fp add sub) db ops"

subsection \<open>The balance of one cargo lot, as a rule on numbers\<close>

text \<open>
  The rule that the snapshot of a lot is measured against, stated on one number and with
  no ledger: there is no balance before the first receipt, and a dispatch changes nothing
  then; the first receipt starts the balance at zero plus its amount; a later receipt adds
  its amount; a dispatch subtracts its amount and floors the result at zero. \<open>fin\<close> reads
  the amount of a receipt and \<open>fout\<close> the amount of a dispatch: the quantities for the
  quantity of the snapshot, the weights for its weight.
\<close>

fun balance_step ::
  "(real \<Rightarrow> real \<Rightarrow> real) \<Rightarrow> (real \<Rightarrow> real \<Rightarrow> real) \<Rightarrow> (movement_op \<Rightarrow> real)
     \<Rightarrow> (movement_op \<Rightarrow> real) \<Rightarrow> real option \<Rightarrow> movement_op \<Rightarrow> real option" where
  "balance_step add sub fin fout None op =
     (if is_receipt op then Some (add 0 (fin op)) else None)"
| "balance_step add sub fin fout (Some b) op =
     (if is_receipt op then Some (add b (fin op)) else Some (max 0 (sub b (fout op))))"

definition running_balance ::
  "(real \<Rightarrow> real \<Rightarrow> real) \<Rightarrow> (real \<Rightarrow> real \<Rightarrow> real) \<Rightarrow> (movement_op \<Rightarrow> real)
     \<Rightarrow> (movement_op \<Rightarrow> real) \<Rightarrow> movement_op list \<Rightarrow> real option" where
  "running_balance add sub fin fout ops = foldl (balance_step add sub fin fout) None ops"

text \<open>
  The closed form of that balance: the largest value that receipts less dispatches takes
  over the trailing segments of the sequence, the empty segment (value 0) and the whole
  sequence (the difference of the claim) included.
\<close>

definition tail_peak ::
  "(movement_op \<Rightarrow> real) \<Rightarrow> (movement_op \<Rightarrow> real) \<Rightarrow> movement_op list \<Rightarrow> real" where
  "tail_peak fin fout ops = Max (set (map (\<lambda>s. total fin s - total fout s) (suffixes ops)))"

text \<open>
  Doubles add and subtract whole numbers exactly as long as the result is at most \<open>2^53\<close>
  in magnitude. Amounts are whole when they are non-negative whole numbers, every dispatch
  takes at most \<open>2^53\<close>, and the receipts sum to at most \<open>2^53\<close>.
\<close>

definition int_exact :: "(real \<Rightarrow> real \<Rightarrow> real) \<Rightarrow> (real \<Rightarrow> real \<Rightarrow> real) \<Rightarrow> bool" where
  "int_exact add sub \<longleftrightarrow>
     (\<forall>x y. x \<in> \<int> \<and> y \<in> \<int> \<and> \<bar>x + y\<bar> \<le> 2 ^ 53 \<longrightarrow> add x y = x + y) \<and>
     (\<forall>x y. x \<in> \<int> \<and> y \<in> \<int> \<and> \<bar>x - y\<bar> \<le> 2 ^ 53 \<longrightarrow> sub x y = x - y)"

definition whole_amounts ::
  "(movement_op \<Rightarrow> real) \<Rightarrow> (movement_op \<Rightarrow> real) \<Rightarrow> movement_op list \<Rightarrow> bool" where
  "whole_amounts fin fout ops \<longleftrightarrow>
     list_all (\<lambda>op. fin op \<in> \<int> \<and> 0 \<le> fin op \<and> fout op \<in> \<int> \<and> 0 \<le> fout op \<and>
                   fout op \<le> 2 ^ 53) ops \<and>
     total fin ops \<le> 2 ^ 53"

subsection \<open>The stored document (seedIfNeeded, getDB, getAuth)\<close>

text \<open>
  The ledger is the string kept under the key \<open>cc_seed_v1\<close>: \<open>None\<close> when the key has
  no item. \<open>seedIfNeeded\<close> returns at once when \<open>getItem\<close> gives a truthy value, that is a
  string that is not empty; otherwise it writes the serialised seed, here \<open>seed_doc\<close>.
  \<open>getDB\<close> then parses what is stored, with no handler around \<open>JSON.parse\<close>, so a
  \<open>SyntaxError\<close> leaves the function. \<open>JSON.parse\<close> belongs to the platform and is a
  parameter; applied to \<open>null\<close> it parses the text \<open>null\<close>.
\<close>

datatype js_error = SyntaxError

type_synonym storage = "string option"

definition seedIfNeeded :: "string \<Rightarrow> storage \<Rightarrow> storage" where
  "seedIfNeeded seed_doc st =
     (case st of
        None \<Rightarrow> Some seed_doc
      | Some s \<Rightarrow> if s \<noteq> [] then st else Some seed_doc)"

definition getDB ::
  "(string \<Rightarrow> js_error + 'a) \<Rightarrow> string \<Rightarrow> storage \<Rightarrow> storage \<times> (js_error + 'a)" where
  "getDB JSON_parse seed_doc st =
     (let st' = seedIfNeeded seed_doc st
      in (st', JSON_parse (case st' of None \<Rightarrow> ''null'' | Some s \<Rightarrow> s)))"

text \<open>
  \<open>getAuth\<close> reads the session under \<open>cc_auth\<close> the other way: \<open>JSON.parse\<close> sits in a
  \<open>try\<close> whose handler returns \<open>null\<close>.
\<close>

definition getAuth :: "(string \<Rightarrow> js_error + 'a option) \<Rightarrow> storage \<Rightarrow> 'a option" where
  "getAuth JSON_parse st =
     (case JSON_parse
             (case st of None \<Rightarrow> ''null'' | Some s \<Rightarrow> if s \<noteq> [] then s else ''null'') of
        Inl _ \<Rightarrow> None
      | Inr a \<Rightarrow> a)"

subsection \<open>The movement history of a cargo lot (MovementDrawer)\<close>

text \<open>
  The drawer loads the ledger with \<open>getDB\<close>, maps the receipts and the dispatches of the
  cargo id to rows, and sorts the fresh array \<open>[...receipts, ...dispatches]\<close> with the
  comparator \<open>new Date(a.date) - new Date(b.date)\<close>. \<open>Array.prototype.sort\<close> is stable
  and the comparator is the difference of two keys, so the result is the stable sort by
  that key (\<^const>\<open>sort_key\<close>). The model returns the store with the rows, so that what
  the drawer does to the store is part of its result.
\<close>

record movement =
  m_type :: string
  m_date :: int
  m_qty :: real
  m_details :: string

definition receipt_rows :: "ledger \<Rightarrow> string \<Rightarrow> movement list" where
  "receipt_rows db c =
     map (\<lambda>r. \<lparr>m_type = ''Receipt'', m_date = date_in r, m_qty = r_quantity r,
               m_details = indent_number r\<rparr>)
       (filter (\<lambda>r. r_cargo_id r = c) (warehouse_receipts db))"

definition dispatch_rows :: "ledger \<Rightarrow> string \<Rightarrow> movement list" where
  "dispatch_rows db c =
     map (\<lambda>d. \<lparr>m_type = ''Dispatch'', m_date = date_dispatched d, m_qty = - qty_packed d,
               m_details = container_no d\<rparr>)
       (filter (\<lambda>d. d_cargo_id d = c) (dispatches db))"

definition MovementDrawer ::
  "(string \<Rightarrow> js_error + ledger) \<Rightarrow> string \<Rightarrow> storage \<Rightarrow> snapshot
     \<Rightarrow> storage \<times> (js_error + movement list)" where
  "MovementDrawer JSON_parse seed_doc st cargo =
     (case getDB JSON_parse seed_doc st of
        (st', Inl e) \<Rightarrow> (st', Inl e)
      | (st', Inr db) \<Rightarrow>
          (st', Inr (sort_key m_date
                       (receipt_rows db (cargo_id cargo) @ dispatch_rows db (cargo_id cargo)))))"

subsection \<open>Signing in (LoginPage.doLogin, LoginPage.forgot, UsersPage.invite)\<close>

text \<open>
  \<open>doLogin\<close> computes \<open>ok\<close>, true when the stored password of the e-mail address is truthy
  (a string that is not empty) and equal to the submitted one, and looks the user up by
  e-mail address. With \<open>ok\<close> and a user the session is set and nothing is stored. Otherwise,
  when the user's \<open>tempPassword\<close> is the submitted password, the temporary password is set
  to \<open>null\<close>, the submitted password is stored as the password, the ledger is saved and the
  session is set. Otherwise the page shows "Invalid credentials". The result names the
  branch taken and carries the session that \<open>setAuth\<close> receives.
\<close>

record auth =
  a_email :: string
  a_role :: string
  a_name :: string

datatype login = ByPassword auth | ByTempPassword auth | InvalidCredentials

definition auth_of :: "string \<Rightarrow> user \<Rightarrow> auth" where
  "auth_of em u = \<lparr>a_email = em, a_role = role u, a_name = u_name u\<rparr>"

definition doLogin :: "ledger \<Rightarrow> string \<Rightarrow> string \<Rightarrow> ledger \<times> login" where
  "doLogin db em password =
     (let ok = (case passwords db em of None \<Rightarrow> False | Some p \<Rightarrow> p \<noteq> [] \<and> p = password);
          found = List.find (\<lambda>u. email u = em) (users db)
      in case found of
           None \<Rightarrow> (db, InvalidCredentials)
         | Some u \<Rightarrow>
             if ok then (db, ByPassword (auth_of em u))
             else if tempPassword u = Some password then
               (db\<lparr>users := update_first (\<lambda>u. email u = em) (\<lambda>u. u\<lparr>tempPassword := None\<rparr>)
                              (users db),
                   passwords := (passwords db)(em \<mapsto> password)\<rparr>,
                ByTempPassword (auth_of em u))
             else (db, InvalidCredentials))"

text \<open>
  \<open>forgot\<close> issues the temporary password \<open>temp\<close> (drawn at random by the program) to the
  user of the e-mail address, or reports "Email not found" (\<open>None\<close>) and stores nothing.
\<close>

definition forgot :: "string \<Rightarrow> ledger \<Rightarrow> string \<Rightarrow> ledger option" where
  "forgot temp db em =
     (case List.find (\<lambda>u. email u = em) (users db) of
        None \<Rightarrow> None
      | Some _ \<Rightarrow>
          Some (db\<lparr>users := update_first (\<lambda>u. email u = em) (\<lambda>u. u\<lparr>tempPassword := Some temp\<rparr>)
                              (users db)\<rparr>))"

text \<open>
  \<open>invite\<close> pushes the new user and stores the user's temporary password as the password
  of the e-mail address as well.
\<close>

definition invite :: "ledger \<Rightarrow> user \<Rightarrow> ledger" where
  "invite db usr =
     db\<lparr>users := users db @ [usr],
        passwords := (passwords db)(email usr := tempPassword usr)\<rparr>"

text \<open>The user that the program finds for an e-mail address.\<close>

definition user_of :: "ledger \<Rightarrow> string \<Rightarrow> user option" where
  "user_of db em = List.find (\<lambda>u. email u = em) (users db)"

subsection \<open>The seeded inventory (seedIfNeeded, lines 181 to 204)\<close>

text \<open>
  \<open>Math.random()\<close> returns a number that is at least 0 and less than 1; the type of its
  results is \<open>draw\<close>. The program's helpers follow: \<open>rand(min, max)\<close> is
  \<open>Math.floor(Math.random() * (max - min + 1)) + min\<close>, \<open>choice(arr)\<close> is
  \<open>arr[rand(0, arr.length - 1)]\<close> (every call of the program passes an array that is not
  empty, and then the index is in range, lemma \<open>choice_in_set\<close>), and
  \<open>numberBetween(min, max, decimals)\<close> is
  \<open>parseFloat((Math.random() * (max - min) + min).toFixed(decimals))\<close>, where \<open>toFixed\<close>
  rounds the magnitude to the nearest multiple of \<open>10^-decimals\<close>, the larger one at a tie.
  \<open>uid(prefix)\<close> appends to the prefix seven base-36 digits of a draw; the formatting of the
  draw belongs to the platform and is the parameter \<open>base36\<close>.
\<close>

typedef draw = "{u::real. 0 \<le> u \<and> u < 1}"
  by (rule exI[of _ 0]) simp

definition rand :: "draw \<Rightarrow> int \<Rightarrow> int \<Rightarrow> int" where
  "rand u lo hi = \<lfloor>Rep_draw u * of_int (hi - lo + 1)\<rfloor> + lo"

definition choice :: "draw \<Rightarrow> 'a list \<Rightarrow> 'a" where
  "choice u arr = arr ! nat (rand u 0 (int (length arr) - 1))"

definition toFixed_value :: "real \<Rightarrow> nat \<Rightarrow> real" where
  "toFixed_value x d = sgn x * of_int \<lfloor>\<bar>x\<bar> * 10 ^ d + 1 / 2\<rfloor> / 10 ^ d"

definition numberBetween :: "draw \<Rightarrow> real \<Rightarrow> real \<Rightarrow> nat \<Rightarrow> real" where
  "numberBetween u lo hi decimals = toFixed_value (Rep_draw u * (hi - lo) + lo) decimals"

definition uid :: "(draw \<Rightarrow> string) \<Rightarrow> draw \<Rightarrow> string \<Rightarrow> string" where
  "uid base36 u pfx = pfx @ ''_'' @ base36 u"

text \<open>
  \<open>byCargo\<close> is an object keyed by cargo id; \<open>Object.entries\<close> lists its keys in the order
  in which they were first assigned (the cargo ids of the program, \<open>CG-\<close> and three digits,
  are not array indices), so the object is an association list that grows at the end.
  Each receipt, then each dispatch, creates the entry of its cargo id when there is none and
  then adds to it, or subtracts from it.
\<close>

record cargo_sum =
  v_quantity :: real
  v_weight_kg :: real
  v_last_movement :: int

type_synonym by_cargo = "(string \<times> cargo_sum) list"

definition ensure_key :: "string \<Rightarrow> int \<Rightarrow> by_cargo \<Rightarrow> by_cargo" where
  "ensure_key k t m =
     (if map_of m k = None
      then m @ [(k, \<lparr>v_quantity = 0, v_weight_kg = 0, v_last_movement = t\<rparr>)]
      else m)"

definition modify :: "string \<Rightarrow> (cargo_sum \<Rightarrow> cargo_sum) \<Rightarrow> by_cargo \<Rightarrow> by_cargo" where
  "modify k f m = map (\<lambda>(k', v). if k' = k then (k', f v) else (k', v)) m"

definition add_receipt :: "by_cargo \<Rightarrow> receipt \<Rightarrow> by_cargo" where
  "add_receipt m r =
     modify (r_cargo_id r)
       (\<lambda>v. v\<lparr>v_quantity := v_quantity v + r_quantity r,
               v_weight_kg := v_weight_kg v + r_weight_kg r,
               v_last_movement := date_in r\<rparr>)
       (ensure_key (r_cargo_id r) (date_in r) m)"

definition sub_dispatch :: "by_cargo \<Rightarrow> dispatch \<Rightarrow> by_cargo" where
  "sub_dispatch m d =
     modify (d_cargo_id d)
       (\<lambda>v. v\<lparr>v_quantity := v_quantity v - qty_packed d,
               v_weight_kg := v_weight_kg v - total_weight_kg d,
               v_last_movement := date_dispatched d\<rparr>)
       (ensure_key (d_cargo_id d) (date_dispatched d) m)"

definition byCargo :: "receipt list \<Rightarrow> dispatch list \<Rightarrow> by_cargo" where
  "byCargo rs ds = foldl sub_dispatch (foldl add_receipt [] rs) ds"

definition invStatuses :: "status list" where
  "invStatuses = [Bonded, FAK, OnSite, InTransit]"

text \<open>
  One snapshot for each entry. The object literal is evaluated field by field: a draw for
  the identifier, a draw for the status unless the quantity is at most \<open>0\<close>, and a draw for
  the weight; \<open>rnd\<close> is the sequence of draws and \<open>n\<close> the position of the next one.
\<close>

fun inventory_of ::
  "(draw \<Rightarrow> string) \<Rightarrow> (nat \<Rightarrow> draw) \<Rightarrow> nat \<Rightarrow> by_cargo \<Rightarrow> snapshot list" where
  "inventory_of base36 rnd n [] = []"
| "inventory_of base36 rnd n ((c, v) # es) =
     (let gone = (v_quantity v \<le> 0);
          n_w = (if gone then n + 1 else n + 2)
      in \<lparr>i_id = uid base36 (rnd n) ''inv'',
          cargo_id = c,
          status = (if gone then Dispatched else choice (rnd (n + 1)) invStatuses),
          quantity = max 0 (of_int \<lfloor>v_quantity v\<rfloor>),
          weight_kg = max 0 (numberBetween (rnd n_w) (max 0 (v_weight_kg v - 50))
                               (max 0 (v_weight_kg v + 50)) 1),
          last_movement = v_last_movement v\<rparr>
        # inventory_of base36 rnd (n_w + 1) es)"

definition seed_inventory ::
  "(draw \<Rightarrow> string) \<Rightarrow> (nat \<Rightarrow> draw) \<Rightarrow> nat \<Rightarrow> receipt list \<Rightarrow> dispatch list
     \<Rightarrow> snapshot list" where
  "seed_inventory base36 rnd n rs ds = inventory_of base36 rnd n (byCargo rs ds)"

text \<open>The fold of the claim: what was received of a cargo id less what was dispatched.\<close>

definition net_quantity :: "receipt list \<Rightarrow> dispatch list \<Rightarrow> string \<Rightarrow> real" where
  "net_quantity rs ds c =
     sum_list (map r_quantity (filter (\<lambda>r. r_cargo_id r = c) rs)) -
     sum_list (map qty_packed (filter (\<lambda>d. d_cargo_id d = c) ds))"

definition net_weight :: "receipt list \<Rightarrow> dispatch list \<Rightarrow> string \<Rightarrow> real" where
  "net_weight rs ds c =
     sum_list (map r_weight_kg (filter (\<lambda>r. r_cargo_id r = c) rs)) -
     sum_list (map total_weight_kg (filter (\<lambda>d. d_cargo_id d = c) ds))"

definition cargo_ids :: "receipt list \<Rightarrow> dispatch list \<Rightarrow> string set" where
  "cargo_ids rs ds = r_cargo_id ` set rs \<union> d_cargo_id ` set ds"

text \<open>The invariant of the two folds of \<open>byCargo\<close>.\<close>

definition tallied :: "by_cargo \<Rightarrow> receipt list \<Rightarrow> dispatch list \<Rightarrow> bool" where
  "tallied m rs ds \<longleftrightarrow>
     distinct (map fst m) \<and> fst ` set m = cargo_ids rs ds \<and>
     (\<forall>(c, v) \<in> set m.
        v_quantity v = net_quantity rs ds c \<and> v_weight_kg v = net_weight rs ds c)"

subsection \<open>The CSV export (csvEscape, exportCSV)\<close>

text \<open>
  A row handed to \<open>exportCSV\<close> is an object: the list of its own properties in the order
  of \<open>Object.keys\<close>, each with its value, \<open>None\<close> for \<open>null\<close> or \<open>undefined\<close> and
  \<open>Some s\<close> for a value whose \<open>String(v)\<close> is \<open>s\<close>. \<open>r[h]\<close> is the value of the own
  property \<open>h\<close>; for a name that the object does not have, JavaScript goes on to the
  prototype of the object (\<open>constructor\<close>, \<open>toString\<close>), here the parameter \<open>proto\<close>. The
  header line joins the names of the first row as they are, without \<open>csvEscape\<close>. The
  model returns the text that goes into the Blob, and \<open>None\<close> when the function returns
  before building one (no rows).
\<close>

abbreviation (input) comma :: char where "comma \<equiv> CHR '',''"
abbreviation (input) dquote :: char where "dquote \<equiv> CHR 0x22"
abbreviation (input) newline :: char where "newline \<equiv> CHR 0x0A"
abbreviation (input) creturn :: char where "creturn \<equiv> CHR 0x0D"

definition needs_quotes :: "string \<Rightarrow> bool" where
  "needs_quotes s \<longleftrightarrow> comma \<in> set s \<or> dquote \<in> set s \<or> newline \<in> set s"

definition double_quotes :: "string \<Rightarrow> string" where
  "double_quotes s = concat (map (\<lambda>c. if c = dquote then [dquote, dquote] else [c]) s)"

definition csvEscape :: "string option \<Rightarrow> string" where
  "csvEscape v =
     (case v of
        None \<Rightarrow> []
      | Some s \<Rightarrow> if needs_quotes s then [dquote] @ double_quotes s @ [dquote] else s)"

fun join :: "'a list \<Rightarrow> 'a list list \<Rightarrow> 'a list" where
  "join sep [] = []"
| "join sep [x] = x"
| "join sep (x # y # ys) = x @ sep @ join sep (y # ys)"

type_synonym js_object = "(string \<times> string option) list"

definition property ::
  "(string \<Rightarrow> string option) \<Rightarrow> js_object \<Rightarrow> string \<Rightarrow> string option" where
  "property proto r h = (case map_of r h of None \<Rightarrow> proto h | Some v \<Rightarrow> v)"

definition exportCSV :: "(string \<Rightarrow> string option) \<Rightarrow> js_object list \<Rightarrow> string option" where
  "exportCSV proto rows =
     (case rows of
        [] \<Rightarrow> None
      | r0 # _ \<Rightarrow>
          (let headers = map fst r0
           in Some (join [newline]
                      (join [comma] headers #
                       map (\<lambda>r. join [comma]
                                  (map (\<lambda>h. csvEscape (property proto r h)) headers))
                         rows))))"

subsection \<open>A reader for the exported dialect\<close>

text \<open>
  The repository writes CSV and never reads it, so the round trip needs a reader, and the
  statements about reading are statements about this one. It reads quoted fields as
  RFC 4180 describes them: a field that starts with a double quote runs to the next single
  double quote, two double quotes inside it stand for one, and commas, line feeds and
  carriage returns inside it are data. Outside quotes a comma ends a field and a line feed
  or a carriage return ends a row; a row end where no row has begun is skipped, so that
  CR LF ends one row, an empty line is no row, and a line end at the end of the text adds
  none. The reader is total: a quote in the middle of an unquoted field, or text after a
  closing quote, is read as part of the field.
\<close>

datatype reader_state = FieldStart | Unquoted | Quoted | QuoteSeen

fun csv_read :: "reader_state \<Rightarrow> string \<Rightarrow> string list \<Rightarrow> string \<Rightarrow> string list list" where
  "csv_read st fld row [] = (if st = FieldStart \<and> row = [] then [] else [row @ [fld]])"
| "csv_read FieldStart fld row (c # cs) =
     (if c = dquote then csv_read Quoted fld row cs
      else if c = comma then csv_read FieldStart [] (row @ [fld]) cs
      else if c = newline \<or> c = creturn then
        (if row = [] then csv_read FieldStart [] [] cs
         else (row @ [fld]) # csv_read FieldStart [] [] cs)
      else csv_read Unquoted (fld @ [c]) row cs)"
| "csv_read Unquoted fld row (c # cs) =
     (if c = comma then csv_read FieldStart [] (row @ [fld]) cs
      else if c = newline \<or> c = creturn then (row @ [fld]) # csv_read FieldStart [] [] cs
      else csv_read Unquoted (fld @ [c]) row cs)"
| "csv_read Quoted fld row (c # cs) =
     (if c = dquote then csv_read QuoteSeen fld row cs
      else csv_read Quoted (fld @ [c]) row cs)"
| "csv_read QuoteSeen fld row (c # cs) =
     (if c = dquote then csv_read Quoted (fld @ [c]) row cs
      else if c = comma then csv_read FieldStart [] (row @ [fld]) cs
      else if c = newline \<or> c = creturn then (row @ [fld]) # csv_read FieldStart [] [] cs
      else csv_read Unquoted (fld @ [c]) row cs)"

definition parseCSV :: "string \<Rightarrow> string list list" where
  "parseCSV s = csv_read FieldStart [] [] s"

text \<open>The string that \<open>csvEscape\<close> writes for a value, before quoting.\<close>

definition field_string :: "string option \<Rightarrow> string" where
  "field_string v = (case v of None \<Rightarrow> [] | Some s \<Rightarrow> s)"

text \<open>The lines of a text, counted by its line feeds: one more than there are.\<close>

definition count_newlines :: "string \<Rightarrow> nat" where
  "count_newlines s = length (filter (\<lambda>c. c = newline) s)"

definition physical_lines :: "string \<Rightarrow> nat" where
  "physical_lines s = Suc (count_newlines s)"

text \<open>
  Rows have the same shape when each has the names of the first row, in any order (the
  seeded users and the invited users of the program list \<open>role\<close> and \<open>name\<close> in different
  orders); the names of an object are distinct. The names are plain when there is at least
  one, they are not one single empty name, and none holds a comma, a double quote, a line
  feed or a carriage return. The export leaves a carriage return bare when the value holds
  none of the three characters that make \<open>csvEscape\<close> quote it. It writes an empty line
  for a record whose only field is \<open>null\<close>, \<open>undefined\<close> or the empty string.
\<close>

definition same_shape :: "js_object list \<Rightarrow> bool" where
  "same_shape rows \<longleftrightarrow>
     (case rows of
        [] \<Rightarrow> True
      | r0 # _ \<Rightarrow>
          list_all (\<lambda>r. distinct (map fst r) \<and> set (map fst r) = set (map fst r0)) rows)"

definition plain_names :: "js_object list \<Rightarrow> bool" where
  "plain_names rows \<longleftrightarrow>
     (case rows of
        [] \<Rightarrow> True
      | r0 # _ \<Rightarrow>
          r0 \<noteq> [] \<and> map fst r0 \<noteq> [[]] \<and>
          list_all (\<lambda>(k, v). \<not> needs_quotes k \<and> creturn \<notin> set k) r0)"

definition no_bare_return :: "js_object list \<Rightarrow> bool" where
  "no_bare_return rows \<longleftrightarrow>
     list_all (list_all (\<lambda>(k, v). creturn \<in> set (field_string v) \<longrightarrow>
                                    needs_quotes (field_string v))) rows"

definition no_blank_line :: "js_object list \<Rightarrow> bool" where
  "no_blank_line rows \<longleftrightarrow>
     (case rows of
        [] \<Rightarrow> True
      | r0 # _ \<Rightarrow>
          length r0 \<noteq> 1 \<or> list_all (list_all (\<lambda>(k, v). field_string v \<noteq> [])) rows)"

text \<open>
  Notions of the round-trip proof: the text after a field is at a field end when it is
  empty or starts with a comma or a line feed; \<open>end_field\<close> is what the reader does there
  once a row has begun; an encoding reads as a string when the reader, started on it at
  the start of a field, ends the field with that string, unless the encoding is empty, no
  row has begun and the row ends there (the empty line).
\<close>

definition at_field_end :: "string \<Rightarrow> bool" where
  "at_field_end rest \<longleftrightarrow> (case rest of [] \<Rightarrow> True | c # _ \<Rightarrow> c = comma \<or> c = newline)"

definition end_field :: "string \<Rightarrow> string list \<Rightarrow> string \<Rightarrow> string list list" where
  "end_field fld row rest =
     (case rest of
        [] \<Rightarrow> [row @ [fld]]
      | c # cs \<Rightarrow> if c = comma then csv_read FieldStart [] (row @ [fld]) cs
                  else (row @ [fld]) # csv_read FieldStart [] [] cs)"

definition reads_as :: "string \<Rightarrow> string \<Rightarrow> bool" where
  "reads_as enc dec \<longleftrightarrow>
     (\<forall>row rest.
        at_field_end rest \<and> (enc \<noteq> [] \<or> row \<noteq> [] \<or> (\<exists>cs. rest = comma # cs)) \<longrightarrow>
        csv_read FieldStart [] row (enc @ rest) = end_field dec row rest)"

subsection \<open>Sample records for the worked examples\<close>

definition sample_receipt :: "string \<Rightarrow> int \<Rightarrow> real \<Rightarrow> real \<Rightarrow> receipt" where
  "sample_receipt c t q w =
     \<lparr>r_id = ''rcpt_1'', r_cargo_id = c, date_in = t, indent_number = ''10001'',
      r_quantity = q, r_weight_kg = w\<rparr>"

definition sample_dispatch :: "string \<Rightarrow> int \<Rightarrow> real \<Rightarrow> real \<Rightarrow> dispatch" where
  "sample_dispatch c t q w =
     \<lparr>d_id = ''dsp_1'', d_cargo_id = c, container_no = ''MSCU1000001'', date_dispatched = t,
      qty_packed = q, total_weight_kg = w\<rparr>"

definition sample_snapshot :: "string \<Rightarrow> snapshot" where
  "sample_snapshot c =
     \<lparr>i_id = ''inv_1'', cargo_id = c, status = OnSite, quantity = 0, weight_kg = 0,
      last_movement = 0\<rparr>"

text \<open>
  A lot received at time 7, received again at time 3 and dispatched at time 3, saved in
  this order.
\<close>

definition sample_history :: ledger where
  "sample_history =
     DispatchPage_save
       (ReceiptPage_save ''inv_2''
          (ReceiptPage_save ''inv_1'' empty_ledger (sample_receipt ''CG-1'' 7 50 300))
          (sample_receipt ''CG-1'' 3 10 60))
       (sample_dispatch ''CG-1'' 3 20 120)"

definition sample_user :: "string \<Rightarrow> string option \<Rightarrow> user" where
  "sample_user em t =
     \<lparr>u_id = ''usr_1'', email = em, role = ''Viewer'', u_name = ''Read Only'', tempPassword = t\<rparr>"

definition seeded_users :: ledger where
  "seeded_users =
     empty_ledger\<lparr>users := [sample_user ''viewer@curiata.dev'' None],
                  passwords := [''viewer@curiata.dev'' \<mapsto> ''view123'']\<rparr>"

definition sample_rows :: "js_object list" where
  "sample_rows =
     [[(''cargo_id'', Some ''CG-1''),
       (''comments'', Some (''a,b '' @ [dquote] @ ''c'' @ [dquote] @ [newline] @ ''d''))],
      [(''comments'', None), (''cargo_id'', Some ''CG-2'')]]"

section \<open>Facts about the in-place update\<close>

lemma find_update_first:
  assumes "List.find p xs = Some x" and "p (f x)"
  shows "List.find p (update_first p f xs) = Some (f x)"
  using assms by (induction xs) (auto split: if_splits)

lemma find_append_new:
  assumes "List.find p xs = None" and "p y"
  shows "List.find p (xs @ [y]) = Some y"
  using assms by (induction xs) (auto split: if_splits)


lemma snapshot_of_dispatch:
  "snapshot_of (DispatchPage_save db newD) (d_cargo_id newD) =
     map_option (dispatch_from newD) (snapshot_of db (d_cargo_id newD))"
proof (cases "snapshot_of db (d_cargo_id newD)")
  case None
  then show ?thesis
    by (simp add: snapshot_of_def DispatchPage_save_def)
next
  case (Some snap)
  then have "cargo_id snap = d_cargo_id newD"
    by (auto simp: snapshot_of_def find_Some_iff)
  with Some show ?thesis
    by (simp add: snapshot_of_def DispatchPage_save_def find_update_first dispatch_from_def
        Let_def)
qed

lemmas sample_defs = sample_receipt_def sample_dispatch_def empty_ledger_def snapshot_of_def
  ReceiptPage_save_def DispatchPage_save_def receive_into_def dispatch_from_def apply_ops_def
  total_def

section \<open>The running balance of one cargo lot\<close>

lemma total_snoc: "total f (ops @ [x]) = total f ops + f x"
  by (simp add: total_def)

lemma snapshot_of_receipt_fp:
  "snapshot_of (ReceiptPage_save_fp add new_id db newRec) (r_cargo_id newRec) =
     Some (receive_into_fp add newRec
       (case snapshot_of db (r_cargo_id newRec) of
          None \<Rightarrow> \<lparr>i_id = new_id, cargo_id = r_cargo_id newRec, status = OnSite,
                    quantity = 0, weight_kg = 0, last_movement = date_in newRec\<rparr>
        | Some snap \<Rightarrow> snap))"
proof (cases "snapshot_of db (r_cargo_id newRec)")
  case None
  then show ?thesis
    by (simp add: snapshot_of_def ReceiptPage_save_fp_def find_append_new receive_into_fp_def)
next
  case (Some snap)
  then have "cargo_id snap = r_cargo_id newRec"
    by (auto simp: snapshot_of_def find_Some_iff)
  with Some show ?thesis
    by (simp add: snapshot_of_def ReceiptPage_save_fp_def find_update_first receive_into_fp_def)
qed

lemma snapshot_of_dispatch_fp:
  "snapshot_of (DispatchPage_save_fp sub db newD) (d_cargo_id newD) =
     map_option (dispatch_from_fp sub newD) (snapshot_of db (d_cargo_id newD))"
proof (cases "snapshot_of db (d_cargo_id newD)")
  case None
  then show ?thesis
    by (simp add: snapshot_of_def DispatchPage_save_fp_def)
next
  case (Some snap)
  then have "cargo_id snap = d_cargo_id newD"
    by (auto simp: snapshot_of_def find_Some_iff)
  with Some show ?thesis
    by (simp add: snapshot_of_def DispatchPage_save_fp_def find_update_first dispatch_from_fp_def
        Let_def)
qed

lemma exact_steps:
  "receive_into_fp (+) r = receive_into r" "dispatch_from_fp (-) d = dispatch_from d"
  by (simp_all add: fun_eq_iff receive_into_fp_def receive_into_def dispatch_from_fp_def
      dispatch_from_def)

lemma exact_saves:
  "ReceiptPage_save_fp (+) new_id db r = ReceiptPage_save new_id db r"
  "DispatchPage_save_fp (-) db d = DispatchPage_save db d"
  by (simp_all add: ReceiptPage_save_fp_def ReceiptPage_save_def
      DispatchPage_save_fp_def DispatchPage_save_def exact_steps cong: option.case_cong)

lemma exact_apply_ops: "apply_ops_fp (+) (-) db ops = apply_ops db ops"
proof -
  have "apply_op_fp (+) (-) d op = apply_op d op" for d op
    by (cases op) (simp_all add: exact_saves)
  then have "apply_op_fp (+) (-) = apply_op" by (simp add: fun_eq_iff)
  then show ?thesis by (simp add: apply_ops_fp_def apply_ops_def)
qed

lemma ledger_balance:
  assumes "snapshot_of db c = None" and "\<forall>op \<in> set ops. op_cargo_id op = c"
  shows "map_option quantity (snapshot_of (apply_ops_fp add sub db ops) c)
           = running_balance add sub qty_in qty_out ops \<and>
         map_option weight_kg (snapshot_of (apply_ops_fp add sub db ops) c)
           = running_balance add sub weight_in weight_out ops"
  using assms(2)
proof (induction ops rule: rev_induct)
  case Nil
  then show ?case using assms(1) by (simp add: apply_ops_fp_def running_balance_def)
next
  case (snoc x xs)
  let ?db = "apply_ops_fp add sub db xs"
  have IH: "running_balance add sub qty_in qty_out xs = map_option quantity (snapshot_of ?db c)"
           "running_balance add sub weight_in weight_out xs = map_option weight_kg (snapshot_of ?db c)"
    using snoc by simp_all
  have step: "apply_ops_fp add sub db (xs @ [y]) = apply_op_fp add sub ?db y" for y
    by (simp add: apply_ops_fp_def)
  have rb: "running_balance add sub fin fout (xs @ [y])
            = balance_step add sub fin fout (running_balance add sub fin fout xs) y" for fin fout y
    by (simp add: running_balance_def)
  have cx: "op_cargo_id x = c" using snoc.prems by simp
  show ?case
  proof (cases x)
    case (Receive new_id r)
    then have rc: "r_cargo_id r = c" using cx by simp
    show ?thesis
      using snapshot_of_receipt_fp[of add new_id ?db r] IH rc Receive
      by (cases "snapshot_of ?db c") (auto simp: step rb receive_into_fp_def)
  next
    case (Ship d)
    then have dc: "d_cargo_id d = c" using cx by simp
    show ?thesis
      using snapshot_of_dispatch_fp[of sub ?db d] IH dc Ship
      by (cases "snapshot_of ?db c") (auto simp: step rb dispatch_from_fp_def Let_def)
  qed
qed

lemma tail_peak_Nil: "tail_peak fin fout [] = 0"
  by (simp add: tail_peak_def total_def)

lemma tail_peak_snoc:
  "tail_peak fin fout (xs @ [x]) = max 0 (tail_peak fin fout xs + (fin x - fout x))"
proof -
  let ?net = "\<lambda>s. total fin s - total fout s"
  let ?S = "set (suffixes xs)"
  have fin: "finite ?S" "?S \<noteq> {}" by simp_all
  have "set (map ?net (suffixes (xs @ [x])))
        = insert 0 ((\<lambda>s. ?net s + (fin x - fout x)) ` ?S)"
    by (auto simp: total_def image_iff algebra_simps)
  then have "tail_peak fin fout (xs @ [x])
        = Max (insert 0 ((\<lambda>s. ?net s + (fin x - fout x)) ` ?S))"
    by (simp add: tail_peak_def)
  also have "\<dots> = max 0 (Max ((\<lambda>s. ?net s + (fin x - fout x)) ` ?S))"
    using fin by (intro Max_insert) simp_all
  also have "Max ((\<lambda>s. ?net s + (fin x - fout x)) ` ?S) = Max (?net ` ?S) + (fin x - fout x)"
    using fin by (rule Max_add_commute)
  finally show ?thesis by (simp add: tail_peak_def)
qed

lemma tail_peak_nonneg: "0 \<le> tail_peak fin fout ops"
  by (induction ops rule: rev_induct) (simp_all add: tail_peak_Nil tail_peak_snoc)

lemma tail_peak_ge_claim:
  "max 0 (total fin ops - total fout ops) \<le> tail_peak fin fout ops"
proof -
  have "total fin ops - total fout ops \<le> tail_peak fin fout ops"
    unfolding tail_peak_def by (intro Max_ge) auto
  then show ?thesis using tail_peak_nonneg[of fin fout ops] by linarith
qed

lemma tail_peak_eq_claim_iff:
  "tail_peak fin fout ops = max 0 (total fin ops - total fout ops) \<longleftrightarrow>
     (\<forall>s \<in> set (suffixes ops). total fin s - total fout s \<le> max 0 (total fin ops - total fout ops))"
proof -
  have "tail_peak fin fout ops \<le> max 0 (total fin ops - total fout ops) \<longleftrightarrow>
     (\<forall>s \<in> set (suffixes ops). total fin s - total fout s \<le> max 0 (total fin ops - total fout ops))"
    unfolding tail_peak_def by (subst Max_le_iff) auto
  then show ?thesis using tail_peak_ge_claim[where fin = fin and fout = fout and ops = ops] by auto
qed

lemma whole_amounts_snoc:
  assumes "whole_amounts fin fout (xs @ [x])"
  shows "whole_amounts fin fout xs"
    and "fin x \<in> \<int>" and "0 \<le> fin x" and "fout x \<in> \<int>" and "0 \<le> fout x" and "fout x \<le> 2 ^ 53"
    and "total fin xs + fin x \<le> 2 ^ 53"
  using assms by (simp_all add: whole_amounts_def total_def)

lemma total_fin_nonneg: "whole_amounts fin fout ops \<Longrightarrow> 0 \<le> total fin ops"
  by (induction ops) (simp_all add: whole_amounts_def total_def)

lemma tail_peak_int: "whole_amounts fin fout ops \<Longrightarrow> tail_peak fin fout ops \<in> \<int>"
proof (induction ops rule: rev_induct)
  case Nil
  show ?case by (simp add: tail_peak_Nil)
next
  case (snoc x xs)
  have "tail_peak fin fout xs + (fin x - fout x) \<in> \<int>"
    using snoc.IH whole_amounts_snoc[OF snoc.prems] by (intro Ints_add Ints_diff) simp_all
  then show ?case by (simp add: tail_peak_snoc max_def)
qed

lemma tail_peak_le_in: "whole_amounts fin fout ops \<Longrightarrow> tail_peak fin fout ops \<le> total fin ops"
proof (induction ops rule: rev_induct)
  case Nil
  show ?case by (simp add: tail_peak_Nil total_def)
next
  case (snoc x xs)
  note w = whole_amounts_snoc[OF snoc.prems]
  have "tail_peak fin fout xs \<le> total fin xs" using snoc.IH w(1) by simp
  moreover have "0 \<le> total fin xs" using w(1) by (rule total_fin_nonneg)
  ultimately show ?case using w(3,5) by (simp add: tail_peak_snoc total_snoc)
qed

lemma tail_peak_no_receipt:
  assumes "whole_amounts fin fout ops" and "\<forall>op. \<not> is_receipt op \<longrightarrow> fin op = 0"
    and "\<forall>op \<in> set ops. \<not> is_receipt op"
  shows "tail_peak fin fout ops = 0"
  using assms(1,3)
proof (induction ops rule: rev_induct)
  case Nil
  show ?case by (simp add: tail_peak_Nil)
next
  case (snoc x xs)
  note w = whole_amounts_snoc[OF snoc.prems(1)]
  have "tail_peak fin fout xs = 0" using snoc.IH w(1) snoc.prems(2) by simp
  moreover have "fin x = 0" using assms(2) snoc.prems(2) by simp
  ultimately show ?case using w(5) by (simp add: tail_peak_snoc)
qed

lemma balance_closed_form:
  assumes "int_exact add sub" and "whole_amounts fin fout ops"
    and "\<forall>op. is_receipt op \<longrightarrow> fout op = 0" and "\<forall>op. \<not> is_receipt op \<longrightarrow> fin op = 0"
  shows "running_balance add sub fin fout ops =
           (if \<exists>op \<in> set ops. is_receipt op then Some (tail_peak fin fout ops) else None)"
  using assms(2)
proof (induction ops rule: rev_induct)
  case Nil
  show ?case by (simp add: running_balance_def)
next
  case (snoc x xs)
  note w = whole_amounts_snoc[OF snoc.prems]
  let ?p = "tail_peak fin fout xs"
  have IH: "running_balance add sub fin fout xs =
           (if \<exists>op \<in> set xs. is_receipt op then Some ?p else None)"
    using snoc.IH w(1) by simp
  have rb: "running_balance add sub fin fout (xs @ [x])
            = balance_step add sub fin fout (running_balance add sub fin fout xs) x"
    by (simp add: running_balance_def)
  have p: "?p \<in> \<int>" "0 \<le> ?p" "?p \<le> total fin xs"
    using tail_peak_int[OF w(1)] tail_peak_nonneg[of fin fout xs] tail_peak_le_in[OF w(1)]
    by simp_all
  have addx: "add a b = a + b" if "a \<in> \<int>" "b \<in> \<int>" "\<bar>a + b\<bar> \<le> 2 ^ 53" for a b
    using assms(1) that by (simp add: int_exact_def)
  have subx: "sub a b = a - b" if "a \<in> \<int>" "b \<in> \<int>" "\<bar>a - b\<bar> \<le> 2 ^ 53" for a b
    using assms(1) that by (simp add: int_exact_def)
  show ?case
  proof (cases "is_receipt x")
    case True
    then have fo: "fout x = 0" using assms(3) by simp
    show ?thesis
    proof (cases "\<exists>op \<in> set xs. is_receipt op")
      case ex: True
      have "add ?p (fin x) = ?p + fin x"
        using p w(2,3,7) by (intro addx) simp_all
      then show ?thesis using IH ex True fo p(2) w(3) by (simp add: rb tail_peak_snoc)
    next
      case nex: False
      have z: "?p = 0" using tail_peak_no_receipt[OF w(1) assms(4)] nex by simp
      have "0 \<le> total fin xs" using w(1) by (rule total_fin_nonneg)
      then have "add 0 (fin x) = 0 + fin x"
        using w(2,3,7) by (intro addx) simp_all
      then show ?thesis using IH nex True fo z w(3) by (simp add: rb tail_peak_snoc)
    qed
  next
    case False
    then have fi: "fin x = 0" using assms(4) by simp
    show ?thesis
    proof (cases "\<exists>op \<in> set xs. is_receipt op")
      case ex: True
      have "0 \<le> total fin xs" using w(1) by (rule total_fin_nonneg)
      then have "\<bar>?p - fout x\<bar> \<le> 2 ^ 53" using p w(5,6,7) w(3) by (simp add: abs_le_iff)
      then have "sub ?p (fout x) = ?p - fout x"
        using p w(4) by (intro subx) simp_all
      then show ?thesis using IH ex False fi by (simp add: rb tail_peak_snoc)
    next
      case nex: False
      then show ?thesis using IH False by (simp add: rb)
    qed
  qed
qed

lemma running_balance_None_iff:
  "running_balance add sub fin fout ops = None \<longleftrightarrow> (\<forall>op \<in> set ops. \<not> is_receipt op)"
proof (induction ops rule: rev_induct)
  case Nil
  show ?case by (simp add: running_balance_def)
next
  case (snoc x xs)
  have "running_balance add sub fin fout (xs @ [x])
        = balance_step add sub fin fout (running_balance add sub fin fout xs) x"
    by (simp add: running_balance_def)
  then show ?case using snoc
    by (cases "running_balance add sub fin fout xs") auto
qed

text \<open>
  C1, as stated, fails: \<open>DispatchPage.save\<close> floors the snapshot at every dispatch, so stock
  received after an over-dispatch is added to zero and not to the negative difference.
  Receiving 5 (50 kg), dispatching 10 (100 kg) and receiving 5 (50 kg) leaves a snapshot of
  5 pieces and 50 kg, where the formula of the claim gives \<open>max(0, 10 - 10) = 0\<close>.
\<close>

theorem snapshot_balance_clamped_counterexample:
  "map_option quantity (snapshot_of (apply_ops empty_ledger
      [Receive ''inv_1'' (sample_receipt ''CG-1'' 0 5 50),
       Ship (sample_dispatch ''CG-1'' 1 10 100),
       Receive ''inv_2'' (sample_receipt ''CG-1'' 2 5 50)]) ''CG-1'') = Some 5
   \<and> map_option weight_kg (snapshot_of (apply_ops empty_ledger
      [Receive ''inv_1'' (sample_receipt ''CG-1'' 0 5 50),
       Ship (sample_dispatch ''CG-1'' 1 10 100),
       Receive ''inv_2'' (sample_receipt ''CG-1'' 2 5 50)]) ''CG-1'') = Some 50
   \<and> max 0 (total qty_in
      [Receive ''inv_1'' (sample_receipt ''CG-1'' 0 5 50),
       Ship (sample_dispatch ''CG-1'' 1 10 100),
       Receive ''inv_2'' (sample_receipt ''CG-1'' 2 5 50)]
     - total qty_out
      [Receive ''inv_1'' (sample_receipt ''CG-1'' 0 5 50),
       Ship (sample_dispatch ''CG-1'' 1 10 100),
       Receive ''inv_2'' (sample_receipt ''CG-1'' 2 5 50)]) = 0"
  by (simp add: sample_defs)

text \<open>
  C1 (amended): for every sequence of receipts and dispatches of one cargo id \<open>c\<close>, applied
  to a ledger without a snapshot for \<open>c\<close>, with the program's own (rounding) addition and
  subtraction: the ledger has a snapshot for \<open>c\<close> afterwards exactly when the sequence
  holds a receipt; its quantity is the running balance that the first receipt starts at
  zero plus its quantity, to which every later receipt adds its quantity and from which
  every dispatch subtracts \<open>qty_packed\<close>, the result floored at zero at that dispatch
  (a dispatch before the first receipt changes nothing); its weight is the same balance of
  \<open>weight_kg\<close> and \<open>total_weight_kg\<close>. For non-negative whole amounts within the exact
  range of doubles the balance is the largest value of receipts less dispatches over the
  trailing segments of the sequence, the empty one included. That value is at least
  \<open>max(0, sum of receipts - sum of dispatches)\<close> and is equal to it exactly when no
  trailing segment nets more (lemmas \<open>tail_peak_ge_claim\<close>, \<open>tail_peak_eq_claim_iff\<close>).
\<close>

theorem snapshot_running_balance:
  assumes "snapshot_of db c = None" and "\<forall>op \<in> set ops. op_cargo_id op = c"
  shows "(snapshot_of (apply_ops_fp add sub db ops) c = None
            \<longleftrightarrow> (\<forall>op \<in> set ops. \<not> is_receipt op)) \<and>
         map_option quantity (snapshot_of (apply_ops_fp add sub db ops) c)
           = running_balance add sub qty_in qty_out ops \<and>
         map_option weight_kg (snapshot_of (apply_ops_fp add sub db ops) c)
           = running_balance add sub weight_in weight_out ops \<and>
         (int_exact add sub \<and> whole_amounts qty_in qty_out ops \<longrightarrow>
            map_option quantity (snapshot_of (apply_ops_fp add sub db ops) c)
              = (if \<exists>op \<in> set ops. is_receipt op
                 then Some (tail_peak qty_in qty_out ops) else None)) \<and>
         (int_exact add sub \<and> whole_amounts weight_in weight_out ops \<longrightarrow>
            map_option weight_kg (snapshot_of (apply_ops_fp add sub db ops) c)
              = (if \<exists>op \<in> set ops. is_receipt op
                 then Some (tail_peak weight_in weight_out ops) else None))"
proof -
  have r: "\<forall>op. is_receipt op \<longrightarrow> qty_out op = 0" "\<forall>op. \<not> is_receipt op \<longrightarrow> qty_in op = 0"
          "\<forall>op. is_receipt op \<longrightarrow> weight_out op = 0"
          "\<forall>op. \<not> is_receipt op \<longrightarrow> weight_in op = 0"
    by (auto elim: is_receipt.elims)
  note lb = ledger_balance[OF assms, of add sub]
  have none: "snapshot_of (apply_ops_fp add sub db ops) c = None
            \<longleftrightarrow> (\<forall>op \<in> set ops. \<not> is_receipt op)"
    using lb running_balance_None_iff[of add sub qty_in qty_out ops]
    by (cases "snapshot_of (apply_ops_fp add sub db ops) c") auto
  show ?thesis
    using lb none
      balance_closed_form[OF _ _ r(1,2), of add sub ops]
      balance_closed_form[OF _ _ r(3,4), of add sub ops]
    by simp
qed

theorem snapshot_running_balance_witness:
  "int_exact (+) (-) \<and>
   whole_amounts qty_in qty_out
     [Receive ''inv_1'' (sample_receipt ''CG-1'' 0 5 50),
      Ship (sample_dispatch ''CG-1'' 1 10 100),
      Receive ''inv_2'' (sample_receipt ''CG-1'' 2 5 50)] \<and>
   whole_amounts weight_in weight_out
     [Receive ''inv_1'' (sample_receipt ''CG-1'' 0 5 50),
      Ship (sample_dispatch ''CG-1'' 1 10 100),
      Receive ''inv_2'' (sample_receipt ''CG-1'' 2 5 50)] \<and>
   tail_peak qty_in qty_out
     [Receive ''inv_1'' (sample_receipt ''CG-1'' 0 5 50),
      Ship (sample_dispatch ''CG-1'' 1 10 100),
      Receive ''inv_2'' (sample_receipt ''CG-1'' 2 5 50)] = 5 \<and>
   map_option (\<lambda>s. (quantity s, weight_kg s))
     (snapshot_of (apply_ops_fp (+) (-) empty_ledger
        [Receive ''inv_1'' (sample_receipt ''CG-1'' 0 5 50),
         Ship (sample_dispatch ''CG-1'' 1 10 100),
         Receive ''inv_2'' (sample_receipt ''CG-1'' 2 5 50)]) ''CG-1'') = Some (5, 50)"
  using snapshot_running_balance[of empty_ledger "''CG-1''"
     "[Receive ''inv_1'' (sample_receipt ''CG-1'' 0 5 50),
       Ship (sample_dispatch ''CG-1'' 1 10 100),
       Receive ''inv_2'' (sample_receipt ''CG-1'' 2 5 50)]" "(+)" "(-)"]
  by (simp add: int_exact_def whole_amounts_def tail_peak_def sample_defs exact_apply_ops)

section \<open>One dispatch\<close>

text \<open>
  C2: when the cargo id of a dispatch has a snapshot, the snapshot that the ledger has for
  it afterwards has a quantity and a weight that are not negative; the quantity is
  \<open>max(0, on hand - packed)\<close>, hence exactly zero when more is packed than is on hand; and
  whenever the new quantity is zero the status is "Dispatched".
\<close>

theorem dispatch_never_negative:
  assumes "snapshot_of db (d_cargo_id newD) = Some snap"
  shows "\<exists>snap'. snapshot_of (DispatchPage_save db newD) (d_cargo_id newD) = Some snap' \<and>
           quantity snap' = max 0 (quantity snap - qty_packed newD) \<and>
           weight_kg snap' = max 0 (weight_kg snap - total_weight_kg newD) \<and>
           0 \<le> quantity snap' \<and> 0 \<le> weight_kg snap' \<and>
           (quantity snap < qty_packed newD \<longrightarrow> quantity snap' = 0) \<and>
           (quantity snap' = 0 \<longrightarrow> status snap' = Dispatched)"
  using assms snapshot_of_dispatch[of db newD]
  by (simp add: dispatch_from_def Let_def)

theorem dispatch_never_negative_witness:
  "map_option quantity (snapshot_of
      (ReceiptPage_save ''inv_1'' empty_ledger (sample_receipt ''CG-2'' 0 5 50)) ''CG-2'') = Some 5 \<and>
   (5::real) < 8 \<and>
   map_option (\<lambda>s. (quantity s, weight_kg s, status s)) (snapshot_of
      (DispatchPage_save
         (ReceiptPage_save ''inv_1'' empty_ledger (sample_receipt ''CG-2'' 0 5 50))
         (sample_dispatch ''CG-2'' 1 8 80)) ''CG-2'') = Some (0, 0, Dispatched)"
  using dispatch_never_negative[of
      "ReceiptPage_save ''inv_1'' empty_ledger (sample_receipt ''CG-2'' 0 5 50)"
      "sample_dispatch ''CG-2'' 1 8 80"
      "\<lparr>i_id = ''inv_1'', cargo_id = ''CG-2'', status = OnSite, quantity = 5, weight_kg = 50,
        last_movement = 0\<rparr>"]
  by (simp add: sample_defs)

text \<open>
  C3, as stated, fails in one word: the dispatch is not appended. \<open>DispatchPage.save\<close> builds
  \<open>[newD, ...next.dispatches]\<close>, so the new record becomes the first element of the
  collection, before the records that were there.
\<close>

theorem dispatch_not_appended_counterexample:
  "snapshot_of (empty_ledger\<lparr>dispatches := [sample_dispatch ''CG-1'' 0 1 10]\<rparr>) ''CG-99'' = None \<and>
   dispatches (DispatchPage_save (empty_ledger\<lparr>dispatches := [sample_dispatch ''CG-1'' 0 1 10]\<rparr>)
      (sample_dispatch ''CG-99'' 5 3 30))
     = [sample_dispatch ''CG-99'' 5 3 30, sample_dispatch ''CG-1'' 0 1 10] \<and>
   dispatches (DispatchPage_save (empty_ledger\<lparr>dispatches := [sample_dispatch ''CG-1'' 0 1 10]\<rparr>)
      (sample_dispatch ''CG-99'' 5 3 30))
     \<noteq> dispatches (empty_ledger\<lparr>dispatches := [sample_dispatch ''CG-1'' 0 1 10]\<rparr>)
         @ [sample_dispatch ''CG-99'' 5 3 30]"
  by (simp add: sample_defs)

text \<open>
  C3 (amended): when the cargo id of a dispatch has no snapshot, applying the dispatch puts
  the dispatch record in front of the dispatches collection and changes nothing else of
  the ledger: the inventory collection is the same list, so no snapshot is created and
  none is altered.
\<close>

theorem dispatch_unknown_cargo:
  assumes "snapshot_of db (d_cargo_id newD) = None"
  shows "DispatchPage_save db newD = db\<lparr>dispatches := newD # dispatches db\<rparr> \<and>
         inventory_snapshot (DispatchPage_save db newD) = inventory_snapshot db"
  using assms by (simp add: DispatchPage_save_def snapshot_of_def)

theorem dispatch_unknown_cargo_witness:
  "snapshot_of (ReceiptPage_save ''inv_1'' empty_ledger (sample_receipt ''CG-1'' 0 5 50))
      ''CG-99'' = None \<and>
   inventory_snapshot (DispatchPage_save
      (ReceiptPage_save ''inv_1'' empty_ledger (sample_receipt ''CG-1'' 0 5 50))
      (sample_dispatch ''CG-99'' 5 3 30))
     = inventory_snapshot (ReceiptPage_save ''inv_1'' empty_ledger (sample_receipt ''CG-1'' 0 5 50)) \<and>
   dispatches (DispatchPage_save
      (ReceiptPage_save ''inv_1'' empty_ledger (sample_receipt ''CG-1'' 0 5 50))
      (sample_dispatch ''CG-99'' 5 3 30)) = [sample_dispatch ''CG-99'' 5 3 30]"
  using dispatch_unknown_cargo[of
      "ReceiptPage_save ''inv_1'' empty_ledger (sample_receipt ''CG-1'' 0 5 50)"
      "sample_dispatch ''CG-99'' 5 3 30"]
  by (simp add: sample_defs)

section \<open>One receipt\<close>


text \<open>
  The lot of the second scenario: 10 received and 10 dispatched leave a "Dispatched"
  snapshot of quantity 0; a further receipt of 5 makes it "On Site" with quantity 5.
\<close>

lemma receipt_after_full_dispatch:
  "map_option (\<lambda>s. (status s, quantity s))
     (snapshot_of (apply_ops empty_ledger
        [Receive ''inv_1'' (sample_receipt ''CG-2'' 0 10 60),
         Ship (sample_dispatch ''CG-2'' 1 10 60)]) ''CG-2'') = Some (Dispatched, 0) \<and>
   map_option (\<lambda>s. (status s, quantity s))
     (snapshot_of (apply_ops empty_ledger
        [Receive ''inv_1'' (sample_receipt ''CG-2'' 0 10 60),
         Ship (sample_dispatch ''CG-2'' 1 10 60),
         Receive ''inv_2'' (sample_receipt ''CG-2'' 2 5 30)]) ''CG-2'') = Some (OnSite, 5)"
  by (simp add: sample_defs)

section \<open>The movement history\<close>

text \<open>
  C4, as stated, fails for the order of insertion: \<open>ReceiptPage.save\<close> and
  \<open>DispatchPage.save\<close> put a new record in front of its collection, and the stable sort
  keeps the order of the collection. Two receipts of one lot with the same date, saved one
  after the other, come out with the one saved later first.
\<close>

theorem movement_history_newest_first_counterexample:
  "map m_details
     (case snd (MovementDrawer
                  (\<lambda>s. Inr (ReceiptPage_save ''inv_2''
                              (ReceiptPage_save ''inv_1'' empty_ledger
                                 ((sample_receipt ''CG-1'' 3 10 60)\<lparr>indent_number := ''first''\<rparr>))
                              ((sample_receipt ''CG-1'' 3 10 60)\<lparr>indent_number := ''second''\<rparr>)))
                  ''seed'' (Some ''{}'') (sample_snapshot ''CG-1'')) of
        Inr rows \<Rightarrow> rows | Inl _ \<Rightarrow> [])
   = [''second'', ''first'']"
  by (simp add: sample_defs sample_snapshot_def MovementDrawer_def getDB_def seedIfNeeded_def
      receipt_rows_def dispatch_rows_def)

text \<open>
  C4 (amended): on a store that holds a parseable document, the drawer leaves the store as
  it was and returns rows whose dates do not decrease; for every timestamp, the rows of
  that timestamp are the receipts of that timestamp followed by the dispatches of that
  timestamp, each group in the order of the ledger's collection, which is the order of the
  merged list before sorting. For records added by the two save functions that order is
  newest first, the reverse of the order of insertion.
\<close>

theorem movement_history_sorted_stable:
  assumes "doc \<noteq> []" and "JSON_parse doc = Inr db"
  shows "\<exists>rows. MovementDrawer JSON_parse seed_doc (Some doc) cargo = (Some doc, Inr rows) \<and>
           sorted (map m_date rows) \<and>
           (\<forall>t. filter (\<lambda>e. m_date e = t) rows =
                 filter (\<lambda>e. m_date e = t) (receipt_rows db (cargo_id cargo)) @
                 filter (\<lambda>e. m_date e = t) (dispatch_rows db (cargo_id cargo)))"
  using assms
  by (simp add: MovementDrawer_def getDB_def seedIfNeeded_def sort_key_stable)

theorem movement_history_sorted_stable_witness:
  "map (\<lambda>e. (m_type e, m_date e, m_qty e))
     (case snd (MovementDrawer (\<lambda>s. Inr sample_history) ''seed'' (Some ''{}'')
                  (sample_snapshot ''CG-1'')) of
        Inr rows \<Rightarrow> rows | Inl _ \<Rightarrow> [])
   = [(''Receipt'', 3, 10), (''Dispatch'', 3, -20), (''Receipt'', 7, 50)] \<and>
   fst (MovementDrawer (\<lambda>s. Inr sample_history) ''seed'' (Some ''{}'')
          (sample_snapshot ''CG-1'')) = Some ''{}''"
  using movement_history_sorted_stable[of "''{}''" "\<lambda>s. Inr sample_history" sample_history
      "''seed''" "sample_snapshot ''CG-1''"]
  by (simp add: sample_defs sample_history_def sample_snapshot_def MovementDrawer_def getDB_def
      seedIfNeeded_def receipt_rows_def dispatch_rows_def)

section \<open>Loading the stored document\<close>

lemma getDB_missing:
  assumes "st = None \<or> st = Some []"
  shows "getDB JSON_parse seed_doc st = (Some seed_doc, JSON_parse seed_doc)"
  using assms by (auto simp: getDB_def seedIfNeeded_def)

lemma getAuth_corrupt:
  "doc \<noteq> [] \<Longrightarrow> JSON_parse doc = Inl SyntaxError \<Longrightarrow> getAuth JSON_parse (Some doc) = None"
  by (simp add: getAuth_def)

text \<open>
  C5 holds for a missing document (\<open>getDB_missing\<close>: the seed is written and parsed) and
  not for a corrupt one: a stored string that is not empty and does not parse is truthy for
  \<open>seedIfNeeded\<close>, which therefore does not reseed, and \<open>getDB\<close> ends with the
  \<open>SyntaxError\<close> of \<open>JSON.parse\<close>, the store still holding the corrupt string. The
  session reader \<open>getAuth\<close> does catch that error (\<open>getAuth_corrupt\<close>).
\<close>

theorem getDB_corrupt_raises:
  assumes "doc \<noteq> []" and "JSON_parse doc = Inl SyntaxError"
  shows "getDB JSON_parse seed_doc (Some doc) = (Some doc, Inl SyntaxError)"
  using assms by (simp add: getDB_def seedIfNeeded_def)

theorem getDB_corrupt_raises_witness:
  "getDB (\<lambda>s. if s = ''{bad'' then Inl SyntaxError else Inr empty_ledger) ''seed''
      (Some ''{bad'')
     = (Some ''{bad'', Inl SyntaxError)"
  using getDB_corrupt_raises[of "''{bad''"
      "\<lambda>s. if s = ''{bad'' then Inl SyntaxError else Inr empty_ledger" "''seed''"]
  by simp

section \<open>Signing in\<close>

lemma user_of_cleared:
  assumes "user_of db em = Some u"
  shows "user_of
           (db\<lparr>users := update_first (\<lambda>u. email u = em) (\<lambda>u. u\<lparr>tempPassword := None\<rparr>)
                          (users db),
               passwords := pw\<rparr>) em
         = Some (u\<lparr>tempPassword := None\<rparr>)"
proof -
  from assms have e: "email u = em" by (auto simp: user_of_def find_Some_iff)
  have "List.find (\<lambda>u. email u = em)
          (update_first (\<lambda>u. email u = em) (\<lambda>u. u\<lparr>tempPassword := None\<rparr>) (users db))
        = Some (u\<lparr>tempPassword := None\<rparr>)"
    using assms e by (intro find_update_first) (simp_all add: user_of_def)
  then show ?thesis by (simp add: user_of_def)
qed

text \<open>
  C6, as stated, fails for a user whose temporary password is already the stored password,
  which is what \<open>invite\<close> sets up: the first sign-in with the temporary password takes the
  permanent branch, stores nothing, and the temporary password stays outstanding.
\<close>

theorem temp_password_not_consumed_counterexample:
  "doLogin (invite seeded_users (sample_user ''new@curiata.dev'' (Some ''Temp12345!'')))
      ''new@curiata.dev'' ''Temp12345!''
     = (invite seeded_users (sample_user ''new@curiata.dev'' (Some ''Temp12345!'')),
        ByPassword (auth_of ''new@curiata.dev''
                      (sample_user ''new@curiata.dev'' (Some ''Temp12345!'')))) \<and>
   map_option tempPassword (user_of (fst (doLogin
      (invite seeded_users (sample_user ''new@curiata.dev'' (Some ''Temp12345!'')))
      ''new@curiata.dev'' ''Temp12345!'')) ''new@curiata.dev'') = Some (Some ''Temp12345!'')"
  by (simp add: invite_def seeded_users_def sample_user_def empty_ledger_def user_of_def
      auth_of_def doLogin_def)

text \<open>
  C6 (amended): for every user with an outstanding temporary password that is not empty
  and is not already the stored password of the e-mail address (as after \<open>forgot\<close>), the
  first sign-in with the temporary password succeeds through the temporary branch, clears
  the temporary password and stores it as the password; a second sign-in with the same
  password then succeeds through the permanent branch, not the temporary one, and stores
  nothing.
\<close>

theorem temp_password_consumed:
  assumes "user_of db em = Some u" and "tempPassword u = Some t" and "t \<noteq> []"
    and "passwords db em \<noteq> Some t"
  shows "\<exists>db'. doLogin db em t = (db', ByTempPassword (auth_of em u)) \<and>
           map_option tempPassword (user_of db' em) = Some None \<and>
           passwords db' em = Some t \<and>
           doLogin db' em t = (db', ByPassword (auth_of em u))"
proof -
  let ?db' = "db\<lparr>users := update_first (\<lambda>u. email u = em) (\<lambda>u. u\<lparr>tempPassword := None\<rparr>)
                            (users db),
                 passwords := (passwords db)(em \<mapsto> t)\<rparr>"
  have first: "doLogin db em t = (?db', ByTempPassword (auth_of em u))"
    using assms by (auto simp: doLogin_def user_of_def split: option.splits)
  have u': "user_of ?db' em = Some (u\<lparr>tempPassword := None\<rparr>)"
    using assms(1) by (rule user_of_cleared)
  have second: "doLogin ?db' em t = (?db', ByPassword (auth_of em u))"
    using u' assms(3) by (simp add: doLogin_def user_of_def auth_of_def)
  show ?thesis using first u' second by simp
qed

theorem temp_password_consumed_witness:
  "map_option (\<lambda>db. snd (doLogin db ''viewer@curiata.dev'' ''Temp12345!''))
      (forgot ''Temp12345!'' seeded_users ''viewer@curiata.dev'')
     = Some (ByTempPassword (auth_of ''viewer@curiata.dev''
                               (sample_user ''viewer@curiata.dev'' None))) \<and>
   map_option (\<lambda>db. snd (doLogin (fst (doLogin db ''viewer@curiata.dev'' ''Temp12345!''))
                            ''viewer@curiata.dev'' ''Temp12345!''))
      (forgot ''Temp12345!'' seeded_users ''viewer@curiata.dev'')
     = Some (ByPassword (auth_of ''viewer@curiata.dev''
                           (sample_user ''viewer@curiata.dev'' None)))"
  using temp_password_consumed[of
      "seeded_users\<lparr>users := [sample_user ''viewer@curiata.dev'' (Some ''Temp12345!'')]\<rparr>"
      "''viewer@curiata.dev''" "sample_user ''viewer@curiata.dev'' (Some ''Temp12345!'')"
      "''Temp12345!''"]
  by (simp add: forgot_def seeded_users_def sample_user_def empty_ledger_def user_of_def
      auth_of_def doLogin_def)

text \<open>
  C10: the permanent password is tried first. When the e-mail address has a user and the
  submitted password, not empty (the form requires one), is the stored password, the
  sign-in takes the permanent branch and returns the ledger as it was, temporary passwords
  included. After \<open>invite\<close> the stored password of the invited address is the invitation's
  temporary password, so a sign-in of that address with it takes the permanent branch, the
  ledger is returned as it was, and the invited user's record, temporary password included,
  is still among the users.
\<close>

theorem permanent_password_first:
  "(user_of db em = Some u \<and> passwords db em = Some pw \<and> pw \<noteq> [] \<longrightarrow>
      doLogin db em pw = (db, ByPassword (auth_of em u))) \<and>
   (tempPassword usr = Some t \<and> t \<noteq> [] \<longrightarrow>
      (\<exists>a. doLogin (invite db usr) (email usr) t = (invite db usr, ByPassword a)) \<and>
      usr \<in> set (users (fst (doLogin (invite db usr) (email usr) t))))"
proof (intro conjI impI)
  assume "user_of db em = Some u \<and> passwords db em = Some pw \<and> pw \<noteq> []"
  then show "doLogin db em pw = (db, ByPassword (auth_of em u))"
    by (simp add: doLogin_def user_of_def)
next
  assume a: "tempPassword usr = Some t \<and> t \<noteq> []"
  have "List.find (\<lambda>u. email u = email usr) (users db @ [usr]) \<noteq> None"
    by (auto simp: find_None_iff)
  then obtain u where u: "List.find (\<lambda>u. email u = email usr) (users (invite db usr)) = Some u"
    by (auto simp: invite_def)
  have pw: "passwords (invite db usr) (email usr) = Some t"
    using a by (simp add: invite_def)
  have l: "doLogin (invite db usr) (email usr) t
             = (invite db usr, ByPassword (auth_of (email usr) u))"
    using u pw a by (simp add: doLogin_def)
  then show "\<exists>a. doLogin (invite db usr) (email usr) t = (invite db usr, ByPassword a)"
    by blast
  show "usr \<in> set (users (fst (doLogin (invite db usr) (email usr) t)))"
    using l by (simp add: invite_def)
qed

theorem permanent_password_first_witness:
  "doLogin seeded_users ''viewer@curiata.dev'' ''view123''
     = (seeded_users,
        ByPassword (auth_of ''viewer@curiata.dev'' (sample_user ''viewer@curiata.dev'' None))) \<and>
   sample_user ''new@curiata.dev'' (Some ''Temp12345!'')
     \<in> set (users (fst (doLogin
          (invite seeded_users (sample_user ''new@curiata.dev'' (Some ''Temp12345!'')))
          ''new@curiata.dev'' ''Temp12345!'')))"
  using permanent_password_first[of seeded_users "''viewer@curiata.dev''"
      "sample_user ''viewer@curiata.dev'' None" "''view123''"
      "sample_user ''new@curiata.dev'' (Some ''Temp12345!'')" "''Temp12345!''"]
  by (simp add: seeded_users_def sample_user_def empty_ledger_def user_of_def)

section \<open>The seeded inventory\<close>

lemma Rep_draw_range: "0 \<le> Rep_draw u" "Rep_draw u < 1"
  using Rep_draw[of u] by simp_all

lemma choice_in_set:
  assumes "arr \<noteq> []"
  shows "choice u arr \<in> set arr"
proof -
  let ?n = "length arr"
  have pos: "0 < real ?n" using assms by simp
  have "Rep_draw u * real ?n < real ?n"
    using Rep_draw_range(2)[of u] pos by simp
  then have lt: "\<lfloor>Rep_draw u * real ?n\<rfloor> < int ?n"
    by (simp add: floor_less_iff)
  have "0 \<le> Rep_draw u * real ?n"
    using Rep_draw_range(1)[of u] by simp
  then have ge: "0 \<le> \<lfloor>Rep_draw u * real ?n\<rfloor>" by simp
  have "nat \<lfloor>Rep_draw u * real ?n\<rfloor> < ?n" using lt ge by linarith
  then show ?thesis by (simp add: choice_def rand_def)
qed

lemma toFixed_nonneg: "0 \<le> x \<Longrightarrow> toFixed_value x 1 = of_int \<lfloor>x * 10 + 1 / 2\<rfloor> / 10"
  by (cases "x = 0") (simp_all add: toFixed_value_def)

lemma toFixed_close:
  assumes "0 \<le> x"
  shows "x - 1 / 20 \<le> toFixed_value x 1" and "toFixed_value x 1 \<le> x + 1 / 20"
proof -
  define k where "k = \<lfloor>x * 10 + 1 / 2\<rfloor>"
  have a: "of_int k \<le> x * 10 + 1 / 2" unfolding k_def by (rule of_int_floor_le)
  have b: "x * 10 + 1 / 2 < of_int k + 1" unfolding k_def by linarith
  have eq: "toFixed_value x 1 = of_int k / 10"
    unfolding k_def using assms by (rule toFixed_nonneg)
  show "x - 1 / 20 \<le> toFixed_value x 1" unfolding eq using b by linarith
  show "toFixed_value x 1 \<le> x + 1 / 20" unfolding eq using a by linarith
qed

lemma numberBetween_bounds:
  assumes "0 \<le> lo" and "lo \<le> hi"
  shows "lo - 1 / 20 \<le> numberBetween u lo hi 1" and "numberBetween u lo hi 1 \<le> hi + 1 / 20"
proof -
  let ?x = "Rep_draw u * (hi - lo) + lo"
  have m: "0 \<le> Rep_draw u * (hi - lo)" using Rep_draw_range(1)[of u] assms by simp
  have "Rep_draw u * (hi - lo) \<le> 1 * (hi - lo)"
    using Rep_draw_range(2)[of u] assms by (intro mult_right_mono) simp_all
  then have hi: "?x \<le> hi" by simp
  have lo: "lo \<le> ?x" using m by simp
  have x0: "0 \<le> ?x" using lo assms by simp
  show "lo - 1 / 20 \<le> numberBetween u lo hi 1"
    using toFixed_close(1)[OF x0] lo by (simp add: numberBetween_def)
  show "numberBetween u lo hi 1 \<le> hi + 1 / 20"
    using toFixed_close(2)[OF x0] hi by (simp add: numberBetween_def)
qed

lemma keys_ensure: "fst ` set (ensure_key k t m) = insert k (fst ` set m)"
  by (auto simp: ensure_key_def map_of_eq_None_iff)

lemma distinct_ensure: "distinct (map fst m) \<Longrightarrow> distinct (map fst (ensure_key k t m))"
  by (simp add: ensure_key_def map_of_eq_None_iff)

lemma entries_ensure:
  assumes "(c, v) \<in> set (ensure_key k t m)"
  shows "(c, v) \<in> set m \<or> (c = k \<and> k \<notin> fst ` set m \<and> v_quantity v = 0 \<and> v_weight_kg v = 0)"
  using assms by (auto simp: ensure_key_def map_of_eq_None_iff split: if_splits)

lemma map_fst_modify: "map fst (modify k f m) = map fst m"
  by (induction m) (auto simp: modify_def)

lemma keys_modify: "fst ` set (modify k f m) = fst ` set m"
  using arg_cong[where f = set, OF map_fst_modify[of k f m]] by simp

lemma entries_modify:
  assumes "(c, v') \<in> set (modify k f m)"
  shows "\<exists>v. (c, v) \<in> set m \<and> v' = (if c = k then f v else v)"
  using assms by (auto simp: modify_def split: if_splits)

lemma net_unknown:
  assumes "c \<notin> cargo_ids rs ds"
  shows "net_quantity rs ds c = 0" and "net_weight rs ds c = 0"
proof -
  have "filter (\<lambda>r. r_cargo_id r = c) rs = []" "filter (\<lambda>d. d_cargo_id d = c) ds = []"
    using assms by (auto simp: cargo_ids_def filter_empty_conv)
  then show "net_quantity rs ds c = 0" and "net_weight rs ds c = 0"
    by (simp_all add: net_quantity_def net_weight_def)
qed

lemma tallied_add_receipt:
  assumes "tallied m rs ds"
  shows "tallied (add_receipt m r) (rs @ [r]) ds"
proof -
  let ?k = "r_cargo_id r"
  let ?m1 = "ensure_key ?k (date_in r) m"
  from assms have d: "distinct (map fst m)" and keys: "fst ` set m = cargo_ids rs ds"
    and vals: "\<And>c v. (c, v) \<in> set m \<Longrightarrow>
                 v_quantity v = net_quantity rs ds c \<and> v_weight_kg v = net_weight rs ds c"
    by (auto simp: tallied_def)
  have 1: "distinct (map fst (add_receipt m r))"
    using d by (simp add: add_receipt_def map_fst_modify distinct_ensure)
  have "fst ` set (add_receipt m r) = insert ?k (cargo_ids rs ds)"
    using keys by (simp add: add_receipt_def keys_modify keys_ensure)
  then have 2: "fst ` set (add_receipt m r) = cargo_ids (rs @ [r]) ds"
    by (auto simp: cargo_ids_def)
  have 3: "v_quantity v' = net_quantity (rs @ [r]) ds c \<and> v_weight_kg v' = net_weight (rs @ [r]) ds c"
    if "(c, v') \<in> set (add_receipt m r)" for c v'
  proof -
    from that obtain v where v: "(c, v) \<in> set ?m1"
      and v': "v' = (if c = ?k then v\<lparr>v_quantity := v_quantity v + r_quantity r,
               v_weight_kg := v_weight_kg v + r_weight_kg r,
               v_last_movement := date_in r\<rparr> else v)"
      unfolding add_receipt_def by (blast dest: entries_modify)
    have old: "v_quantity v = net_quantity rs ds c \<and> v_weight_kg v = net_weight rs ds c"
      using entries_ensure[OF v] vals net_unknown[of c rs ds] keys by auto
    show ?thesis using old v' by (auto simp: net_quantity_def net_weight_def)
  qed
  show ?thesis unfolding tallied_def using 1 2 3 by auto
qed

lemma tallied_sub_dispatch:
  assumes "tallied m rs ds"
  shows "tallied (sub_dispatch m d) rs (ds @ [d])"
proof -
  let ?k = "d_cargo_id d"
  let ?m1 = "ensure_key ?k (date_dispatched d) m"
  from assms have d: "distinct (map fst m)" and keys: "fst ` set m = cargo_ids rs ds"
    and vals: "\<And>c v. (c, v) \<in> set m \<Longrightarrow>
                 v_quantity v = net_quantity rs ds c \<and> v_weight_kg v = net_weight rs ds c"
    by (auto simp: tallied_def)
  have 1: "distinct (map fst (sub_dispatch m d))"
    using d by (simp add: sub_dispatch_def map_fst_modify distinct_ensure)
  have "fst ` set (sub_dispatch m d) = insert ?k (cargo_ids rs ds)"
    using keys by (simp add: sub_dispatch_def keys_modify keys_ensure)
  then have 2: "fst ` set (sub_dispatch m d) = cargo_ids rs (ds @ [d])"
    by (auto simp: cargo_ids_def)
  have 3: "v_quantity v' = net_quantity rs (ds @ [d]) c \<and> v_weight_kg v' = net_weight rs (ds @ [d]) c"
    if "(c, v') \<in> set (sub_dispatch m d)" for c v'
  proof -
    from that obtain v where v: "(c, v) \<in> set ?m1"
      and v': "v' = (if c = ?k then v\<lparr>v_quantity := v_quantity v - qty_packed d,
               v_weight_kg := v_weight_kg v - total_weight_kg d,
               v_last_movement := date_dispatched d\<rparr> else v)"
      unfolding sub_dispatch_def by (blast dest: entries_modify)
    have old: "v_quantity v = net_quantity rs ds c \<and> v_weight_kg v = net_weight rs ds c"
      using entries_ensure[OF v] vals net_unknown[of c rs ds] keys by auto
    show ?thesis using old v' by (auto simp: net_quantity_def net_weight_def)
  qed
  show ?thesis unfolding tallied_def using 1 2 3 by auto
qed

lemma tallied_receipts: "tallied (foldl add_receipt [] rs) rs []"
proof (induction rs rule: rev_induct)
  case Nil
  show ?case by (simp add: tallied_def cargo_ids_def)
next
  case (snoc r rs)
  then show ?case by (simp add: tallied_add_receipt)
qed

lemma tallied_byCargo: "tallied (byCargo rs ds) rs ds"
  unfolding byCargo_def
  by (induction ds rule: rev_induct) (simp_all add: tallied_receipts tallied_sub_dispatch)

lemma cargo_id_inventory_of: "map cargo_id (inventory_of b rnd n es) = map fst es"
  by (induction es arbitrary: n) (auto simp: Let_def)

lemma keys_inventory_of: "cargo_id ` set (inventory_of b rnd n es) = fst ` set es"
  using arg_cong[where f = set, OF cargo_id_inventory_of[of b rnd n es]] by simp

lemma entry_inventory_of:
  assumes "s \<in> set (inventory_of b rnd n es)"
  shows "\<exists>v. (cargo_id s, v) \<in> set es \<and>
           quantity s = max 0 (of_int \<lfloor>v_quantity v\<rfloor>) \<and>
           (v_quantity v \<le> 0 \<longrightarrow> status s = Dispatched) \<and>
           (0 < v_quantity v \<longrightarrow> status s \<in> set invStatuses) \<and>
           0 \<le> weight_kg s \<and>
           max 0 (v_weight_kg v - 50) - 1 / 20 \<le> weight_kg s \<and>
           weight_kg s \<le> max 0 (v_weight_kg v + 50) + 1 / 20"
  using assms
proof (induction es arbitrary: n)
  case Nil
  then show ?case by simp
next
  case (Cons e es)
  obtain c v where e: "e = (c, v)" by (cases e)
  let ?nw = "if v_quantity v \<le> 0 then n + 1 else n + 2"
  let ?lo = "max 0 (v_weight_kg v - 50)" and ?hi = "max 0 (v_weight_kg v + 50)"
  let ?hd = "\<lparr>i_id = uid b (rnd n) ''inv'', cargo_id = c,
          status = (if v_quantity v \<le> 0 then Dispatched else choice (rnd (n + 1)) invStatuses),
          quantity = max 0 (of_int \<lfloor>v_quantity v\<rfloor>),
          weight_kg = max 0 (numberBetween (rnd ?nw) ?lo ?hi 1),
          last_movement = v_last_movement v\<rparr>"
  from Cons.prems e consider "s = ?hd" | "s \<in> set (inventory_of b rnd (?nw + 1) es)"
    by (auto simp: Let_def split: if_splits)
  then show ?case
  proof cases
    case 1
    have lohi: "0 \<le> ?lo" "?lo \<le> ?hi" by simp_all
    have st: "choice (rnd (n + 1)) invStatuses \<in> set invStatuses"
      by (rule choice_in_set) (simp add: invStatuses_def)
    have w1: "?lo - 1 / 20 \<le> max 0 (numberBetween (rnd ?nw) ?lo ?hi 1)"
      using numberBetween_bounds(1)[OF lohi, of "rnd ?nw"] by linarith
    have w2: "max 0 (numberBetween (rnd ?nw) ?lo ?hi 1) \<le> ?hi + 1 / 20"
      using numberBetween_bounds(2)[OF lohi, of "rnd ?nw"] lohi by linarith
    show ?thesis
      apply (rule exI[of _ v])
      using 1 e st w1 w2 by simp
  next
    case 2
    from Cons.IH[OF 2] show ?thesis by auto
  qed
qed

lemma draw_zero: "Rep_draw (Abs_draw 0) = 0"
  by (simp add: Abs_draw_inverse)

lemma draw_half: "Rep_draw (Abs_draw (1 / 2)) = 1 / 2"
  by (simp add: Abs_draw_inverse)

lemmas seed_defs = seed_inventory_def byCargo_def add_receipt_def sub_dispatch_def
  ensure_key_def modify_def sample_receipt_def sample_dispatch_def net_quantity_def
  net_weight_def numberBetween_def toFixed_value_def choice_def rand_def invStatuses_def
  cargo_ids_def uid_def

text \<open>
  C7, as stated, fails for the weight: the seeded snapshot does not get the folded weight
  but a fresh random number between that weight less 50 and that weight plus 50 (both
  floored at zero), rounded to one decimal. One receipt of 10 pieces and 75 kg, with every
  draw equal to 0: the snapshot has 10 pieces and 25 kg, where the fold gives 75 kg.
\<close>

theorem seed_weight_jitter_counterexample:
  "map (\<lambda>s. (cargo_id s, status s, quantity s, weight_kg s))
     (seed_inventory (\<lambda>_. ''abc1234'') (\<lambda>_. Abs_draw 0) 0
        [sample_receipt ''CG-100'' 0 10 75] [])
     = [(''CG-100'', Bonded, 10, 25)] \<and>
   max 0 (net_weight [sample_receipt ''CG-100'' 0 10 75] [] ''CG-100'') = 75"
  by (simp add: seed_defs draw_zero)

text \<open>
  C7 (amended): the seeded inventory has exactly one snapshot for each cargo id of the
  generated receipts and dispatches. Its quantity is the fold of that id's receipts (added)
  and dispatches (subtracted), rounded down and floored at zero. Its status is
  "Dispatched" when the folded quantity is at most zero and otherwise one of the four
  active statuses. Its weight is not the folded weight \<open>w\<close>: it is a random number, never
  negative, between \<open>max(0, w - 50)\<close> and \<open>max(0, w + 50)\<close> up to the rounding to one
  decimal (0.05).
\<close>

theorem seed_inventory_snapshots:
  "distinct (map cargo_id (seed_inventory b rnd n rs ds)) \<and>
   cargo_id ` set (seed_inventory b rnd n rs ds) = cargo_ids rs ds \<and>
   (\<forall>s \<in> set (seed_inventory b rnd n rs ds).
      quantity s = max 0 (of_int \<lfloor>net_quantity rs ds (cargo_id s)\<rfloor>) \<and>
      (net_quantity rs ds (cargo_id s) \<le> 0 \<longrightarrow> status s = Dispatched) \<and>
      (0 < net_quantity rs ds (cargo_id s) \<longrightarrow> status s \<in> set invStatuses) \<and>
      0 \<le> weight_kg s \<and>
      max 0 (net_weight rs ds (cargo_id s) - 50) - 1 / 20 \<le> weight_kg s \<and>
      weight_kg s \<le> max 0 (net_weight rs ds (cargo_id s) + 50) + 1 / 20)"
proof (intro conjI ballI)
  have t: "tallied (byCargo rs ds) rs ds" by (rule tallied_byCargo)
  show "distinct (map cargo_id (seed_inventory b rnd n rs ds))"
    using t by (simp add: seed_inventory_def cargo_id_inventory_of tallied_def)
  show "cargo_id ` set (seed_inventory b rnd n rs ds) = cargo_ids rs ds"
    using t by (simp add: seed_inventory_def keys_inventory_of tallied_def)
  fix s assume "s \<in> set (seed_inventory b rnd n rs ds)"
  then obtain v where v: "(cargo_id s, v) \<in> set (byCargo rs ds)"
     and p: "quantity s = max 0 (of_int \<lfloor>v_quantity v\<rfloor>)"
           "v_quantity v \<le> 0 \<longrightarrow> status s = Dispatched"
           "0 < v_quantity v \<longrightarrow> status s \<in> set invStatuses"
           "0 \<le> weight_kg s"
           "max 0 (v_weight_kg v - 50) - 1 / 20 \<le> weight_kg s"
           "weight_kg s \<le> max 0 (v_weight_kg v + 50) + 1 / 20"
    unfolding seed_inventory_def by (blast dest: entry_inventory_of)
  from t v have q: "v_quantity v = net_quantity rs ds (cargo_id s)"
    and w: "v_weight_kg v = net_weight rs ds (cargo_id s)"
    by (auto simp: tallied_def)
  show "quantity s = max 0 (of_int \<lfloor>net_quantity rs ds (cargo_id s)\<rfloor>)" using p q by simp
  show "net_quantity rs ds (cargo_id s) \<le> 0 \<longrightarrow> status s = Dispatched" using p q by simp
  show "0 < net_quantity rs ds (cargo_id s) \<longrightarrow> status s \<in> set invStatuses"
    using p q by simp
  show "0 \<le> weight_kg s" using p by simp
  show "max 0 (net_weight rs ds (cargo_id s) - 50) - 1 / 20 \<le> weight_kg s"
    using p w by simp
  show "weight_kg s \<le> max 0 (net_weight rs ds (cargo_id s) + 50) + 1 / 20"
    using p w by simp
qed

theorem seed_inventory_snapshots_witness:
  "map (\<lambda>s. (cargo_id s, status s, quantity s, weight_kg s))
     (seed_inventory (\<lambda>_. ''abc1234'') (\<lambda>_. Abs_draw (1 / 2)) 0
        [sample_receipt ''CG-100'' 0 10 75, sample_receipt ''CG-200'' 1 5 40]
        [sample_dispatch ''CG-200'' 2 8 60])
     = [(''CG-100'', OnSite, 10, 75), (''CG-200'', Dispatched, 0, 15)] \<and>
   net_quantity [sample_receipt ''CG-100'' 0 10 75, sample_receipt ''CG-200'' 1 5 40]
     [sample_dispatch ''CG-200'' 2 8 60] ''CG-200'' = - 3 \<and>
   net_weight [sample_receipt ''CG-100'' 0 10 75, sample_receipt ''CG-200'' 1 5 40]
     [sample_dispatch ''CG-200'' 2 8 60] ''CG-200'' = - 20"
  using seed_inventory_snapshots[of "\<lambda>_. ''abc1234''" "\<lambda>_. Abs_draw (1 / 2)" 0
      "[sample_receipt ''CG-100'' 0 10 75, sample_receipt ''CG-200'' 1 5 40]"
      "[sample_dispatch ''CG-200'' 2 8 60]"]
  by (simp add: seed_defs draw_half)

section \<open>The CSV export and its round trip\<close>

lemma read_unquoted_run:
  assumes "\<not> needs_quotes s" and "creturn \<notin> set s"
  shows "csv_read Unquoted fld row (s @ rest) = csv_read Unquoted (fld @ s) row rest"
  using assms by (induction s arbitrary: fld) (auto simp: needs_quotes_def)

lemma read_unquoted_end:
  assumes "at_field_end rest"
  shows "csv_read Unquoted fld row rest = end_field fld row rest"
  using assms by (cases rest) (auto simp: at_field_end_def end_field_def)

lemma read_quoteseen_end:
  assumes "at_field_end rest"
  shows "csv_read QuoteSeen fld row rest = end_field fld row rest"
  using assms by (cases rest) (auto simp: at_field_end_def end_field_def)

lemma read_fieldstart_end:
  assumes "at_field_end rest" and "row \<noteq> [] \<or> (\<exists>cs. rest = comma # cs)"
  shows "csv_read FieldStart [] row rest = end_field [] row rest"
  using assms by (cases rest) (auto simp: at_field_end_def end_field_def)

lemma read_quoted_run:
  assumes "at_field_end rest"
  shows "csv_read Quoted fld row (double_quotes s @ dquote # rest) = end_field (fld @ s) row rest"
proof (induction s arbitrary: fld)
  case Nil
  show ?case using assms by (simp add: double_quotes_def read_quoteseen_end)
next
  case (Cons c s)
  have "csv_read Quoted fld row (double_quotes (c # s) @ dquote # rest)
        = csv_read Quoted (fld @ [c]) row (double_quotes s @ dquote # rest)"
    by (simp add: double_quotes_def)
  then show ?case using Cons.IH[of "fld @ [c]"] by simp
qed

lemma reads_plain:
  assumes "\<not> needs_quotes s" and "creturn \<notin> set s"
  shows "reads_as s s"
  unfolding reads_as_def
proof (intro allI impI)
  fix row :: "string list" and rest :: string
  assume a: "at_field_end rest \<and> (s \<noteq> [] \<or> row \<noteq> [] \<or> (\<exists>cs. rest = comma # cs))"
  show "csv_read FieldStart [] row (s @ rest) = end_field s row rest"
  proof (cases s)
    case Nil
    then show ?thesis using a by (simp add: read_fieldstart_end)
  next
    case (Cons c s')
    then have c: "c \<noteq> comma" "c \<noteq> dquote" "c \<noteq> newline" "c \<noteq> creturn"
      and s': "\<not> needs_quotes s'" "creturn \<notin> set s'"
      using assms by (auto simp: needs_quotes_def)
    have "csv_read FieldStart [] row (s @ rest) = csv_read Unquoted [c] row (s' @ rest)"
      using Cons c by simp
    also have "\<dots> = csv_read Unquoted ([c] @ s') row rest"
      using s' by (rule read_unquoted_run)
    also have "\<dots> = end_field s row rest"
      using a Cons by (simp add: read_unquoted_end)
    finally show ?thesis .
  qed
qed

lemma reads_csvEscape:
  assumes "creturn \<in> set (field_string v) \<longrightarrow> needs_quotes (field_string v)"
  shows "reads_as (csvEscape v) (field_string v)"
proof (cases v)
  case None
  then show ?thesis
    using reads_plain[of "[]"] by (simp add: csvEscape_def field_string_def needs_quotes_def)
next
  case (Some s)
  show ?thesis
  proof (cases "needs_quotes s")
    case True
    have "csv_read FieldStart [] row (csvEscape v @ rest) = end_field s row rest"
      if "at_field_end rest" for row rest
      using Some True read_quoted_run[OF that, of "[]" row s] by (simp add: csvEscape_def)
    then show ?thesis using Some by (simp add: reads_as_def field_string_def)
  next
    case False
    then have "creturn \<notin> set s" using assms Some by (auto simp: field_string_def)
    with False show ?thesis
      using Some reads_plain[of s] by (simp add: csvEscape_def field_string_def)
  qed
qed

lemma reads_as_last:
  assumes "reads_as e d" and "e \<noteq> [] \<or> row \<noteq> []"
  shows "csv_read FieldStart [] row e = [row @ [d]]"
  using assms(1)[unfolded reads_as_def, rule_format, of "[]" row] assms(2)
  by (auto simp: at_field_end_def end_field_def)

lemma reads_as_comma:
  assumes "reads_as e d"
  shows "csv_read FieldStart [] row (e @ comma # cs) = csv_read FieldStart [] (row @ [d]) cs"
  using assms[unfolded reads_as_def, rule_format, of "comma # cs" row]
  by (simp add: at_field_end_def end_field_def)

lemma reads_as_newline:
  assumes "reads_as e d" and "e \<noteq> [] \<or> row \<noteq> []"
  shows "csv_read FieldStart [] row (e @ newline # cs) = (row @ [d]) # csv_read FieldStart [] [] cs"
  using assms(1)[unfolded reads_as_def, rule_format, of "newline # cs" row] assms(2)
  by (auto simp: at_field_end_def end_field_def)

lemma read_last_row:
  assumes "list_all2 reads_as encs decs" and "encs \<noteq> []"
    and "row \<noteq> [] \<or> join [comma] encs \<noteq> []"
  shows "csv_read FieldStart [] row (join [comma] encs) = [row @ decs]"
  using assms
proof (induction encs decs arbitrary: row rule: list_all2_induct)
  case Nil
  then show ?case by simp
next
  case (Cons e es d ds)
  show ?case
  proof (cases es)
    case Nil
    then have "ds = []" using Cons.hyps(2) by simp
    moreover have "e \<noteq> [] \<or> row \<noteq> []" using Cons.prems(2) Nil by auto
    ultimately show ?thesis using Nil reads_as_last[OF Cons.hyps(1)] by simp
  next
    case (Cons e' es')
    then have "csv_read FieldStart [] row (join [comma] (e # es))
               = csv_read FieldStart [] row (e @ comma # join [comma] es)" by simp
    also have "\<dots> = csv_read FieldStart [] (row @ [d]) (join [comma] es)"
      by (rule reads_as_comma) fact
    also have "\<dots> = [(row @ [d]) @ ds]"
      using Cons by (intro Cons.IH) simp_all
    finally show ?thesis by simp
  qed
qed

lemma read_row:
  assumes "list_all2 reads_as encs decs" and "encs \<noteq> []"
    and "row \<noteq> [] \<or> join [comma] encs \<noteq> []"
  shows "csv_read FieldStart [] row (join [comma] encs @ newline # after)
           = (row @ decs) # csv_read FieldStart [] [] after"
  using assms
proof (induction encs decs arbitrary: row rule: list_all2_induct)
  case Nil
  then show ?case by simp
next
  case (Cons e es d ds)
  show ?case
  proof (cases es)
    case Nil
    then have "ds = []" using Cons.hyps(2) by simp
    moreover have "e \<noteq> [] \<or> row \<noteq> []" using Cons.prems(2) Nil by auto
    ultimately show ?thesis using Nil reads_as_newline[OF Cons.hyps(1)] by simp
  next
    case (Cons e' es')
    then have "csv_read FieldStart [] row (join [comma] (e # es) @ newline # after)
               = csv_read FieldStart [] row (e @ comma # (join [comma] es @ newline # after))"
      by simp
    also have "\<dots> = csv_read FieldStart [] (row @ [d]) (join [comma] es @ newline # after)"
      by (rule reads_as_comma) fact
    also have "\<dots> = ((row @ [d]) @ ds) # csv_read FieldStart [] [] after"
      using Cons by (intro Cons.IH) simp_all
    finally show ?thesis by simp
  qed
qed

lemma read_lines:
  assumes "list_all2 (\<lambda>encs decs. encs \<noteq> [] \<and> join [comma] encs \<noteq> [] \<and>
                                   list_all2 reads_as encs decs) lines rows"
    and "lines \<noteq> []"
  shows "parseCSV (join [newline] (map (join [comma]) lines)) = rows"
  using assms unfolding parseCSV_def
proof (induction lines rows rule: list_all2_induct)
  case Nil
  then show ?case by simp
next
  case (Cons l ls r rs)
  show ?case
  proof (cases ls)
    case Nil
    then have "rs = []" using Cons.hyps(2) by simp
    with Nil show ?thesis using read_last_row[of l r "[]"] Cons.hyps(1) by simp
  next
    case (Cons l' ls')
    then have "csv_read FieldStart [] [] (join [newline] (map (join [comma]) (l # ls)))
               = csv_read FieldStart [] []
                   (join [comma] l @ newline # join [newline] (map (join [comma]) ls))"
      by simp
    also have "\<dots> = ([] @ r) # csv_read FieldStart [] [] (join [newline] (map (join [comma]) ls))"
      using Cons.hyps(1) by (intro read_row) simp_all
    also have "\<dots> = r # rs"
      using Cons Cons.IH by simp
    finally show ?thesis .
  qed
qed

lemma count_newlines_Nil: "count_newlines [] = 0"
  by (simp add: count_newlines_def)

lemma count_newlines_Cons:
  "count_newlines (c # s) = (if c = newline then 1 else 0) + count_newlines s"
  by (simp add: count_newlines_def)

lemma count_newlines_append: "count_newlines (a @ b) = count_newlines a + count_newlines b"
  by (simp add: count_newlines_def)

lemma count_newlines_join_comma:
  "count_newlines (join [comma] xs) = sum_list (map count_newlines xs)"
  by (induction "[comma]" xs rule: join.induct)
     (simp_all add: count_newlines_append count_newlines_Cons count_newlines_Nil)

lemma count_newlines_join_newline:
  "ls \<noteq> [] \<Longrightarrow>
   count_newlines (join [newline] ls) = sum_list (map count_newlines ls) + (length ls - 1)"
  by (induction "[newline]" ls rule: join.induct)
     (simp_all add: count_newlines_append count_newlines_Cons count_newlines_Nil)

lemma count_newlines_double_quotes: "count_newlines (double_quotes s) = count_newlines s"
  by (induction s) (simp_all add: double_quotes_def count_newlines_def)

lemma count_newlines_csvEscape: "count_newlines (csvEscape v) = count_newlines (field_string v)"
proof (cases v)
  case None
  then show ?thesis by (simp add: csvEscape_def field_string_def)
next
  case (Some s)
  then show ?thesis
    by (simp add: csvEscape_def field_string_def count_newlines_append count_newlines_Cons
        count_newlines_Nil count_newlines_double_quotes)
qed

lemma count_newlines_plain: "\<not> needs_quotes s \<Longrightarrow> count_newlines s = 0"
  by (auto simp: needs_quotes_def count_newlines_def filter_empty_conv)

lemma property_own:
  assumes "distinct (map fst r)" and "(k, v) \<in> set r"
  shows "property proto r k = v"
proof -
  from assms have "map_of r k = Some v" by (rule map_of_is_SomeI)
  then show ?thesis by (simp add: property_def)
qed

lemma join_comma_blank:
  assumes "join [comma] encs = []" and "encs \<noteq> []"
  shows "encs = [[]]"
proof (cases encs)
  case Nil
  with assms(2) show ?thesis by simp
next
  case (Cons e es)
  with assms(1) show ?thesis by (cases es) simp_all
qed

lemma csvEscape_blank: "csvEscape v = [] \<Longrightarrow> field_string v = []"
  by (cases v) (auto simp: csvEscape_def field_string_def split: if_splits)

lemmas csv_defs = exportCSV_def parseCSV_def csvEscape_def needs_quotes_def double_quotes_def
  property_def field_string_def physical_lines_def count_newlines_def same_shape_def
  plain_names_def no_bare_return_def no_blank_line_def

text \<open>
  C8, as stated, fails: the header line is joined without \<open>csvEscape\<close>. A single record
  whose field is named \<open>a\<close>, line feed, \<open>b\<close> exports to a text of three lines, which reads
  back as three rows of one field, where the claim has \<open>N + 1 = 2\<close>.
\<close>

theorem csv_header_unescaped_counterexample:
  "exportCSV (\<lambda>_. None) [[(''a'' @ [newline] @ ''b'', Some ''x'')]]
     = Some (''a'' @ [newline] @ ''b'' @ [newline] @ ''x'') \<and>
   map_option physical_lines (exportCSV (\<lambda>_. None) [[(''a'' @ [newline] @ ''b'', Some ''x'')]])
     = Some 3 \<and>
   map_option parseCSV (exportCSV (\<lambda>_. None) [[(''a'' @ [newline] @ ''b'', Some ''x'')]])
     = Some [[''a''], [''b''], [''x'']] \<and>
   length [[(''a'' @ [newline] @ ''b'', Some ''x'')]] + 1 = (2::nat)"
  by (simp add: csv_defs)

text \<open>
  Two more texts that the export writes and that do not read back as the records: a value
  with a carriage return and none of the quoted characters is written bare, and its row
  reads as two; a record whose only field is empty is written as an empty line, which is
  no row.
\<close>

lemma bare_return_splits:
  "exportCSV (\<lambda>_. None) [[(''a'', Some (''x'' @ [creturn] @ ''y''))]]
     = Some (''a'' @ [newline] @ ''x'' @ [creturn] @ ''y'') \<and>
   map_option parseCSV (exportCSV (\<lambda>_. None) [[(''a'', Some (''x'' @ [creturn] @ ''y''))]])
     = Some [[''a''], [''x''], [''y'']]"
  by (simp add: csv_defs)

lemma blank_last_line_lost:
  "exportCSV (\<lambda>_. None) [[(''a'', None)]] = Some (''a'' @ [newline]) \<and>
   map_option parseCSV (exportCSV (\<lambda>_. None) [[(''a'', None)]]) = Some [[''a'']]"
  by (simp add: csv_defs)

text \<open>
  C8 (amended): for every list of \<open>N \<ge> 1\<close> records of the same shape (the same field
  names, in any order) whose field names are plain, in which a carriage return occurs only
  in values that hold a comma, a double quote or a line feed as well, and which, when they
  have a single field, have no empty value: the export, read by the reader of this theory,
  gives exactly \<open>N + 1\<close> rows, the names of the first record in its order and then for
  each record the strings of its fields in the order of those names, each exactly as
  \<open>csvEscape\<close> received it (the empty string for \<open>null\<close> and \<open>undefined\<close>), whatever
  commas, double quotes and line feeds the values hold; every field of every record is
  among them. A value with one of these three characters is written between double quotes
  with its double quotes doubled, any other value as it is. The text has \<open>N + 1\<close> lines
  plus one for every line feed inside a value.
\<close>

theorem csv_round_trip:
  assumes "rows \<noteq> []" and "same_shape rows" and "plain_names rows"
    and "no_bare_return rows" and "no_blank_line rows"
  shows "\<exists>csv. exportCSV proto rows = Some csv \<and>
           parseCSV csv =
             map fst (hd rows) #
             map (\<lambda>r. map (\<lambda>h. field_string (property proto r h)) (map fst (hd rows))) rows \<and>
           (\<forall>r \<in> set rows. \<forall>(k, v) \<in> set r.
              k \<in> set (map fst (hd rows)) \<and> property proto r k = v) \<and>
           length (parseCSV csv) = length rows + 1 \<and>
           physical_lines csv =
             length rows + 1 +
             sum_list (map (\<lambda>r. sum_list (map (\<lambda>h. count_newlines
                                                      (field_string (property proto r h)))
                                             (map fst (hd rows)))) rows) \<and>
           csvEscape (Some s) =
             (if needs_quotes s then [dquote] @ double_quotes s @ [dquote] else s)"
proof -
  obtain r0 rest where rows: "rows = r0 # rest" using assms(1) by (cases rows) auto
  define headers where "headers = map fst r0"
  have "\<forall>r \<in> set rows. distinct (map fst r) \<and> set (map fst r) = set headers"
    using assms(2) unfolding rows headers_def by (simp add: same_shape_def list_all_iff)
  then have shape: "\<And>r. r \<in> set rows \<Longrightarrow> distinct (map fst r)"
              "\<And>r. r \<in> set rows \<Longrightarrow> set (map fst r) = set headers"
    by blast+
  have plain: "headers \<noteq> []" "headers \<noteq> [[]]"
              "\<And>h. h \<in> set headers \<Longrightarrow> \<not> needs_quotes h \<and> creturn \<notin> set h"
    using assms(3) rows by (auto simp: plain_names_def headers_def list_all_iff)
  have own: "k \<in> set headers \<and> property proto r k = v" if "r \<in> set rows" "(k, v) \<in> set r" for r k v
  proof -
    have "k \<in> set (map fst r)" using that(2) by force
    then show ?thesis using shape[OF that(1)] property_own[OF _ that(2)] by simp
  qed
  have val: "\<exists>v. (h, v) \<in> set r \<and> property proto r h = v" if "r \<in> set rows" "h \<in> set headers" for r h
  proof -
    have "h \<in> set (map fst r)" using shape(2)[OF that(1)] that(2) by simp
    then obtain v where "(h, v) \<in> set r" by auto
    then show ?thesis using own[OF that(1)] by blast
  qed
  have cr: "creturn \<in> set (field_string (property proto r h))
             \<longrightarrow> needs_quotes (field_string (property proto r h))"
    if r: "r \<in> set rows" and h: "h \<in> set headers" for r h
  proof -
    obtain v where v: "(h, v) \<in> set r" "property proto r h = v" using val[OF r h] by blast
    then show ?thesis using assms(4) r by (auto simp: no_bare_return_def list_all_iff)
  qed
  define enc where "enc = (\<lambda>r. map (\<lambda>h. csvEscape (property proto r h)) headers)"
  define dec where "dec = (\<lambda>r. map (\<lambda>h. field_string (property proto r h)) headers)"
  define encoded where "encoded = headers # map enc rows"
  define csv where "csv = join [newline] (map (join [comma]) encoded)"
  have exp: "exportCSV proto rows = Some csv"
    by (simp add: exportCSV_def rows csv_def encoded_def enc_def headers_def Let_def comp_def)
  have hdr: "list_all2 reads_as headers headers"
    using plain(3) by (simp add: list_all2_same reads_plain)
  have hline: "join [comma] headers \<noteq> []"
    using join_comma_blank[of headers] plain(1,2) by blast
  have dat: "list_all2 reads_as (enc r) (dec r)" if "r \<in> set rows" for r
    using cr[OF that]
    by (simp add: enc_def dec_def list_all2_map1 list_all2_map2 list_all2_same reads_csvEscape)
  have dline: "join [comma] (enc r) \<noteq> []" if r: "r \<in> set rows" for r
  proof
    assume b: "join [comma] (enc r) = []"
    have ne: "enc r \<noteq> []" using plain(1) by (simp add: enc_def)
    from join_comma_blank[OF b ne] obtain h where h: "headers = [h]"
      and e: "csvEscape (property proto r h) = []"
      by (cases headers) (auto simp: enc_def)
    have "length (map fst r0) = 1" using h by (simp add: headers_def)
    then have "length r0 = 1" by simp
    then have all: "\<And>r k v. r \<in> set rows \<Longrightarrow> (k, v) \<in> set r \<Longrightarrow> field_string v \<noteq> []"
      using assms(5) rows by (auto simp: no_blank_line_def list_all_iff)
    obtain v where v: "(h, v) \<in> set r" "property proto r h = v"
      using val[OF r, of h] h by auto
    from csvEscape_blank[OF e] v all[OF r v(1)] show False by simp
  qed
  have all: "list_all2 (\<lambda>encs decs. encs \<noteq> [] \<and> join [comma] encs \<noteq> [] \<and>
                                   list_all2 reads_as encs decs) encoded
               (headers # map dec rows)"
    unfolding encoded_def using hdr plain(1) hline dat dline
    by (simp add: list_all2_map1 list_all2_map2 list_all2_same enc_def)
  have parse: "parseCSV csv = headers # map dec rows"
    unfolding csv_def using all by (intro read_lines) (simp_all add: encoded_def)
  have hnl: "sum_list (map count_newlines headers) = 0"
    using plain(3) by (simp add: count_newlines_plain)
  have "count_newlines csv
        = sum_list (map count_newlines (map (join [comma]) encoded))
          + (length (map (join [comma]) encoded) - 1)"
    unfolding csv_def by (rule count_newlines_join_newline) (simp add: encoded_def)
  also have "\<dots> = sum_list (map (\<lambda>r. sum_list (map (\<lambda>h. count_newlines
                                                      (field_string (property proto r h)))
                                             headers)) rows)
                  + length rows"
    using hnl
    by (simp add: encoded_def enc_def comp_def count_newlines_join_comma
        count_newlines_csvEscape)
  finally have lines: "physical_lines csv =
             length rows + 1 +
             sum_list (map (\<lambda>r. sum_list (map (\<lambda>h. count_newlines
                                                      (field_string (property proto r h)))
                                             headers)) rows)"
    by (simp add: physical_lines_def)
  have esc: "csvEscape (Some s) =
               (if needs_quotes s then [dquote] @ double_quotes s @ [dquote] else s)"
    by (simp add: csvEscape_def)
  have own': "\<forall>r \<in> set rows. \<forall>(k, v) \<in> set r. k \<in> set headers \<and> property proto r k = v"
    using own by blast
  show ?thesis
    using exp parse lines esc own' by (simp add: rows headers_def dec_def)
qed

theorem csv_round_trip_witness:
  "same_shape sample_rows \<and> plain_names sample_rows \<and> no_bare_return sample_rows \<and>
   no_blank_line sample_rows \<and>
   map_option parseCSV (exportCSV (\<lambda>_. None) sample_rows)
     = Some [[''cargo_id'', ''comments''],
             [''CG-1'', ''a,b '' @ [dquote] @ ''c'' @ [dquote] @ [newline] @ ''d''],
             [''CG-2'', []]] \<and>
   map_option physical_lines (exportCSV (\<lambda>_. None) sample_rows) = Some 4"
  using csv_round_trip[of sample_rows "\<lambda>_. None"]
  by (simp add: sample_rows_def csv_defs insert_commute)

end
